theory Spec2Isabelle
  imports Main
begin

section \<open>pg\_incremental: pipeline registry and file list pipelines\<close>

text \<open>
  A shallow embedding of \<^verbatim>\<open>src/pipeline.c\<close> and \<^verbatim>\<open>src/file_list.c\<close>.

  The C functions read and write database tables through SPI, switch the current user
  identity, and leave by \<^verbatim>\<open>ereport(ERROR, ...)\<close>. Here every function takes the store and
  returns an outcome together with the store as it stands when the function is left: on
  \<open>Returned\<close> this is the store after the last statement, on \<open>Raised\<close> it is the store at the
  \<^verbatim>\<open>ereport\<close>. What the host does with a raised error afterwards, the abort of the running
  transaction, is not code of these files; it is modelled apart, by \<open>in_transaction\<close>.
\<close>

subsection \<open>Data\<close>

type_synonym Oid = nat

text \<open>The two PostgreSQL constants used by the identity switch (pg\_authid, miscadmin.h).\<close>

definition BOOTSTRAP_SUPERUSERID :: Oid where
  "BOOTSTRAP_SUPERUSERID = 10"

definition SECURITY_LOCAL_USERID_CHANGE :: int where
  "SECURITY_LOCAL_USERID_CHANGE = 1"

text \<open>pipeline.h: \<^verbatim>\<open>typedef char PipelineType\<close> with two codes.\<close>

type_synonym PipelineType = char

definition SEQUENCE_RANGE_PIPELINE :: PipelineType where
  "SEQUENCE_RANGE_PIPELINE = CHR ''s''"

definition TIME_INTERVAL_PIPELINE :: PipelineType where
  "TIME_INTERVAL_PIPELINE = CHR ''t''"

record PipelineDesc =
  pipelineName :: string
  pipelineType :: PipelineType
  ownerId :: Oid
  sourceRelationId :: Oid
  command :: string

text \<open>file\_list.c: \<^verbatim>\<open>struct FileList\<close>.\<close>

record FileList =
  files :: "string list"
  batched :: bool
  maxBatchSize :: int

text \<open>Every \<^verbatim>\<open>ereport(ERROR)\<close> and \<^verbatim>\<open>elog(ERROR)\<close> of the two files, plus the two errors that
  come out of \<^verbatim>\<open>SPI_execute_with_args\<close> itself: a failing user command and a violated key.\<close>

datatype error =
    PipelineCannotBeFound string
  | NoSuchPipeline string
  | PermissionDenied string
  | UnknownPipelineType PipelineType
  | UniqueViolation string
  | CommandFailed

datatype notice =
    NoFilesToProcess string
  | ProcessingFile string string
  | ProcessingFiles string int

datatype 'a outcome = Returned 'a | Raised error

text \<open>The parameter a user command is executed with: one path (\<^verbatim>\<open>TEXTOID\<close>) or an array of
  paths (\<^verbatim>\<open>TEXTARRAYOID\<close>).\<close>

datatype cmd_arg = TextArg string | TextArrayArg "string list"

text \<open>Rows of \<^verbatim>\<open>incremental.pipelines\<close> and \<^verbatim>\<open>incremental.file_list_pipelines\<close>, with the
  columns the queries name.\<close>

record pipelines_row =
  p_pipeline_type :: PipelineType
  p_owner_id :: Oid
  p_source_relation :: Oid
  p_command :: string

record file_list_pipelines_row =
  fl_file_pattern :: string
  fl_batched :: bool
  fl_list_function :: string
  fl_max_batch_size :: "int option"

text \<open>Modelled from the spec: the time-interval state of a pipeline is its last-processed
  interval boundary plus the interval width and the minimum delay (the table and
  \<^verbatim>\<open>time_interval.c\<close> are not in these files). Timestamps and intervals are numbers of
  microseconds.\<close>

record time_interval_pipelines_row =
  ti_batched :: bool
  ti_last_processed_time :: int
  ti_time_interval :: int
  ti_min_delay :: int

text \<open>
  The store: the current user identity and security context of the backend, the tables, the
  notices reported so far, the user commands handed to SPI so far (\<open>invocations\<close>, in
  order, the failing one included), and the user's own data \<open>world\<close> that a command changes.
\<close>

text \<open>
  Modelled from the spec: the table definitions are not in these files. The spec gives the
  descriptor table and the per-kind state tables a unique key on the pipeline name, so they
  are maps; the processed-item log is keyed on the pair (name, item), see
  \<open>insert_processed_files\<close>. The sequence state table holds the last-processed sequence
  value of its pipeline.
\<close>

record 'w store =
  userId :: Oid
  secContext :: int
  pipelines :: "string \<rightharpoonup> pipelines_row"
  file_list_pipelines :: "string \<rightharpoonup> file_list_pipelines_row"
  processed_files :: "(string \<times> string) list"
  sequence_pipelines :: "string \<rightharpoonup> int"
  time_interval_pipelines :: "string \<rightharpoonup> time_interval_pipelines_row"
  notices :: "notice list"
  invocations :: "(string \<times> cmd_arg) list"
  world :: "'w"

text \<open>
  What the two files call but do not define: the list functions (by qualified name, applied
  to a pattern), the execution of a user command on the user's data (\<open>None\<close> when the
  command raises), and the \<^verbatim>\<open>rolsuper\<close> attribute behind \<^verbatim>\<open>superuser()\<close>.
\<close>

record 'w env =
  listFunctions :: "string \<Rightarrow> string \<Rightarrow> string list"
  runCommand :: "string \<Rightarrow> cmd_arg \<Rightarrow> 'w \<Rightarrow> 'w option"
  rolsuper :: "Oid \<Rightarrow> bool"

subsection \<open>Identity switch\<close>

definition GetUserIdAndSecContext :: "'w store \<Rightarrow> Oid \<times> int" where
  "GetUserIdAndSecContext st = (userId st, secContext st)"

definition SetUserIdAndSecContext :: "Oid \<Rightarrow> int \<Rightarrow> 'w store \<Rightarrow> 'w store" where
  "SetUserIdAndSecContext u c st = st\<lparr>userId := u, secContext := c\<rparr>"

definition ereport_notice :: "notice \<Rightarrow> 'w store \<Rightarrow> 'w store" where
  "ereport_notice n st = st\<lparr>notices := notices st @ [n]\<rparr>"

subsection \<open>file\_list.c\<close>

text \<open>Modelled from the spec: the key of \<^verbatim>\<open>incremental.file_list_pipelines\<close> (its definition
  is missing) is the pipeline name, so the insert of \<^verbatim>\<open>InitializeFileListPipelineState\<close>
  raises when the name has a row. The fifth argument is passed as NULL unless
  \<^verbatim>\<open>maxBatchSize > 0\<close>.\<close>

definition InitializeFileListPipelineState ::
  "string \<Rightarrow> string \<Rightarrow> bool \<Rightarrow> string \<Rightarrow> int \<Rightarrow> 'w store \<Rightarrow> unit outcome \<times> 'w store" where
  "InitializeFileListPipelineState name pattern isBatched listFunction maxSize st =
     (let (savedUserId, savedSecurityContext) = GetUserIdAndSecContext st;
          st1 = SetUserIdAndSecContext BOOTSTRAP_SUPERUSERID SECURITY_LOCAL_USERID_CHANGE st
      in if file_list_pipelines st1 name \<noteq> None
         then (Raised (UniqueViolation name), st1)
         else
           let st2 = st1\<lparr>file_list_pipelines := (file_list_pipelines st1)(name \<mapsto>
                      \<lparr>fl_file_pattern = pattern, fl_batched = isBatched,
                       fl_list_function = listFunction,
                       fl_max_batch_size = (if maxSize > 0 then Some maxSize else None)\<rparr>)\<rparr>
           in (Returned (), SetUserIdAndSecContext savedUserId savedSecurityContext st2))"

text \<open>
  The query of \<^verbatim>\<open>GetUnprocessedFileList\<close>:
  \<^verbatim>\<open>select list.path from F($2) as list(path) left join incremental.processed_files proc
     on (pipeline_name = $1 and list.path = proc.path) where proc.path is null\<close>.
  The left join gives, for a listed path, one row per matching log row, or one row with a
  NULL \<^verbatim>\<open>proc.path\<close> when none matches; the \<^verbatim>\<open>where\<close> keeps the latter.
\<close>

definition left_join_processed ::
  "string \<Rightarrow> string list \<Rightarrow> (string \<times> string) list \<Rightarrow> (string \<times> string option) list" where
  "left_join_processed name listing proc =
     concat (map (\<lambda>path.
       case filter (\<lambda>(pn, pp). pn = name \<and> path = pp) proc of
         [] \<Rightarrow> [(path, None)]
       | m # ms \<Rightarrow> map (\<lambda>(pn, pp). (path, Some pp)) (m # ms)) listing)"

definition select_unprocessed ::
  "string \<Rightarrow> string list \<Rightarrow> (string \<times> string) list \<Rightarrow> string list" where
  "select_unprocessed name listing proc =
     map fst (filter (\<lambda>(path, procPath). procPath = None)
                (left_join_processed name listing proc))"

text \<open>The row loop of \<^verbatim>\<open>GetUnprocessedFileList\<close>: \<^verbatim>\<open>lappend\<close> of each row's path.\<close>

fun lappend_rows :: "string list \<Rightarrow> string list \<Rightarrow> string list" where
  "lappend_rows fileList [] = fileList"
| "lappend_rows fileList (path # rows) = lappend_rows (fileList @ [path]) rows"

definition GetUnprocessedFileList ::
  "'w env \<Rightarrow> string \<Rightarrow> string \<Rightarrow> string \<Rightarrow> 'w store \<Rightarrow> string list outcome \<times> 'w store" where
  "GetUnprocessedFileList E name listFunction filePattern st =
     (let (savedUserId, savedSecurityContext) = GetUserIdAndSecContext st;
          st1 = SetUserIdAndSecContext BOOTSTRAP_SUPERUSERID SECURITY_LOCAL_USERID_CHANGE st;
          rows = select_unprocessed name (listFunctions E listFunction filePattern)
                   (processed_files st1);
          fileList = lappend_rows [] rows
      in (Returned fileList, SetUserIdAndSecContext savedUserId savedSecurityContext st1))"

definition GetUnprocessedFilesForPipeline ::
  "'w env \<Rightarrow> string \<Rightarrow> 'w store \<Rightarrow> FileList outcome \<times> 'w store" where
  "GetUnprocessedFilesForPipeline E name st =
     (let (savedUserId, savedSecurityContext) = GetUserIdAndSecContext st;
          st1 = SetUserIdAndSecContext BOOTSTRAP_SUPERUSERID SECURITY_LOCAL_USERID_CHANGE st
      in case file_list_pipelines st1 name of
           None \<Rightarrow> (Raised (PipelineCannotBeFound name), st1)
         | Some row \<Rightarrow>
            (let maxSize = (case fl_max_batch_size row of None \<Rightarrow> - 1 | Some v \<Rightarrow> v);
                 st2 = SetUserIdAndSecContext savedUserId savedSecurityContext st1
             in case GetUnprocessedFileList E name (fl_list_function row)
                       (fl_file_pattern row) st2 of
                  (Raised e, st3) \<Rightarrow> (Raised e, st3)
                | (Returned fs, st3) \<Rightarrow>
                    (Returned \<lparr>files = fs, batched = fl_batched row, maxBatchSize = maxSize\<rparr>,
                     st3)))"

text \<open>
  Modelled from the spec: the definition of \<^verbatim>\<open>incremental.processed_files\<close> is not in these
  files; the spec makes the log unique per (pipeline name, item) pair. The insert statement
  raises on a pair that is present and otherwise appends one row; the result is
  \<^verbatim>\<open>SPI_processed\<close>.
\<close>

definition insert_processed_files ::
  "string \<Rightarrow> string \<Rightarrow> 'w store \<Rightarrow> nat outcome \<times> 'w store" where
  "insert_processed_files name path st =
     (if (name, path) \<in> set (processed_files st)
      then (Raised (UniqueViolation path), st)
      else (Returned 1, st\<lparr>processed_files := processed_files st @ [(name, path)]\<rparr>))"

definition InsertProcessedFile ::
  "string \<Rightarrow> string \<Rightarrow> 'w store \<Rightarrow> unit outcome \<times> 'w store" where
  "InsertProcessedFile name path st =
     (let (savedUserId, savedSecurityContext) = GetUserIdAndSecContext st;
          st1 = SetUserIdAndSecContext BOOTSTRAP_SUPERUSERID SECURITY_LOCAL_USERID_CHANGE st
      in case insert_processed_files name path st1 of
           (Raised e, st2) \<Rightarrow> (Raised e, st2)
         | (Returned SPI_processed, st2) \<Rightarrow>
             if SPI_processed \<le> 0
             then (Raised (PipelineCannotBeFound name), st2)
             else (Returned (), SetUserIdAndSecContext savedUserId savedSecurityContext st2))"

text \<open>\<^verbatim>\<open>delete from incremental.processed_files where pipeline_name = $1\<close>: the rows of the
  pipeline go, \<^verbatim>\<open>SPI_processed\<close> is their number.\<close>

definition delete_processed_files :: "string \<Rightarrow> 'w store \<Rightarrow> nat \<times> 'w store" where
  "delete_processed_files name st =
     (length (filter (\<lambda>(pn, pp). pn = name) (processed_files st)),
      st\<lparr>processed_files := filter (\<lambda>(pn, pp). pn \<noteq> name) (processed_files st)\<rparr>)"

definition RemoveProcessedFileList :: "string \<Rightarrow> 'w store \<Rightarrow> unit outcome \<times> 'w store" where
  "RemoveProcessedFileList name st =
     (let (savedUserId, savedSecurityContext) = GetUserIdAndSecContext st;
          st1 = SetUserIdAndSecContext BOOTSTRAP_SUPERUSERID SECURITY_LOCAL_USERID_CHANGE st;
          (SPI_processed, st2) = delete_processed_files name st1
      in if SPI_processed \<le> 0
         then (Raised (PipelineCannotBeFound name), st2)
         else (Returned (), SetUserIdAndSecContext savedUserId savedSecurityContext st2))"

text \<open>The two functions that hand the user command to SPI, with one path or with an array.
  The invocation is recorded; a command that raises leaves with \<open>CommandFailed\<close>.\<close>

definition execute_command ::
  "'w env \<Rightarrow> string \<Rightarrow> cmd_arg \<Rightarrow> 'w store \<Rightarrow> unit outcome \<times> 'w store" where
  "execute_command E cmd arg st =
     (let st1 = st\<lparr>invocations := invocations st @ [(cmd, arg)]\<rparr>
      in case runCommand E cmd arg (world st1) of
           None \<Rightarrow> (Raised CommandFailed, st1)
         | Some w \<Rightarrow> (Returned (), st1\<lparr>world := w\<rparr>))"

definition ExecuteFileListPipelineForFile ::
  "'w env \<Rightarrow> string \<Rightarrow> string \<Rightarrow> string \<Rightarrow> 'w store \<Rightarrow> unit outcome \<times> 'w store" where
  "ExecuteFileListPipelineForFile E name cmd path st =
     execute_command E cmd (TextArg path) st"

definition ExecuteFileListPipelineForFileArray ::
  "'w env \<Rightarrow> string \<Rightarrow> string \<Rightarrow> string list \<Rightarrow> 'w store \<Rightarrow> unit outcome \<times> 'w store" where
  "ExecuteFileListPipelineForFileArray E name cmd filePaths st =
     execute_command E cmd (TextArrayArg filePaths) st"

text \<open>The first \<^verbatim>\<open>for_each_from\<close> loop of \<^verbatim>\<open>ExecuteBatchedFileListPipeline\<close>, over the cells
  from \<open>offset\<close> on: it stores each path and breaks when \<open>datumIndex\<close> reaches a positive
  \<open>maxBatchSize\<close>.\<close>

fun fill_datums :: "int \<Rightarrow> string list \<Rightarrow> int \<Rightarrow> string list" where
  "fill_datums maxSize [] datumIndex = []"
| "fill_datums maxSize (path # cells) datumIndex =
     (let datumIndex' = datumIndex + 1
      in path # (if maxSize > 0 \<and> datumIndex' = maxSize then []
                 else fill_datums maxSize cells datumIndex'))"

text \<open>The second loop: \<^verbatim>\<open>InsertProcessedFile\<close> for each cell, with the same break.\<close>

fun insert_datums ::
  "string \<Rightarrow> int \<Rightarrow> string list \<Rightarrow> int \<Rightarrow> 'w store \<Rightarrow> unit outcome \<times> 'w store" where
  "insert_datums name maxSize [] fileIndex st = (Returned (), st)"
| "insert_datums name maxSize (path # cells) fileIndex st =
     (case InsertProcessedFile name path st of
        (Raised e, st1) \<Rightarrow> (Raised e, st1)
      | (Returned u, st1) \<Rightarrow>
          (let fileIndex' = fileIndex + 1
           in if maxSize > 0 \<and> fileIndex' = maxSize then (Returned (), st1)
              else insert_datums name maxSize cells fileIndex' st1))"

text \<open>\<^verbatim>\<open>construct_array\<close> reads \<open>fileCount\<close> datums of the filled array.\<close>

definition ExecuteBatchedFileListPipeline ::
  "'w env \<Rightarrow> string \<Rightarrow> string \<Rightarrow> FileList \<Rightarrow> int \<Rightarrow> 'w store \<Rightarrow> unit outcome \<times> 'w store" where
  "ExecuteBatchedFileListPipeline E name cmd fileList offset st =
     (let fileCount0 = int (length (files fileList)) - offset;
          fileCount = (if maxBatchSize fileList > 0 \<and> fileCount0 > maxBatchSize fileList
                       then maxBatchSize fileList else fileCount0);
          fileDatums = fill_datums (maxBatchSize fileList) (drop (nat offset) (files fileList)) 0;
          filesArray = take (nat fileCount) fileDatums;
          st1 = ereport_notice (ProcessingFiles name fileCount) st
      in case ExecuteFileListPipelineForFileArray E name cmd filesArray st1 of
           (Raised e, st2) \<Rightarrow> (Raised e, st2)
         | (Returned u, st2) \<Rightarrow>
             insert_datums name (maxBatchSize fileList)
               (drop (nat offset) (files fileList)) 0 st2)"

text \<open>The \<^verbatim>\<open>do ... while\<close> loop of the batched branch. The C variables \<open>offset\<close> and
  \<open>maxBatchSize\<close> are \<^verbatim>\<open>int\<close>; the sum \<open>offset + maxBatchSize\<close> is \<open>maxBatchSize\<close> itself
  after the first batch and below twice the length of the list after any other, so it
  stays in the range of \<^verbatim>\<open>int\<close> for every list PostgreSQL can allocate, and the model
  computes with integers.\<close>

function batched_loop ::
  "'w env \<Rightarrow> string \<Rightarrow> string \<Rightarrow> FileList \<Rightarrow> int \<Rightarrow> 'w store \<Rightarrow> unit outcome \<times> 'w store" where
  "batched_loop E name cmd fileList offset st =
     (case ExecuteBatchedFileListPipeline E name cmd fileList offset st of
        (Raised e, st1) \<Rightarrow> (Raised e, st1)
      | (Returned u, st1) \<Rightarrow>
          (let offset' = offset + maxBatchSize fileList
           in if maxBatchSize fileList > 0 \<and> offset' < int (length (files fileList))
              then batched_loop E name cmd fileList offset' st1
              else (Returned (), st1)))"
  by pat_completeness auto
termination
  by (relation "measure (\<lambda>(E, name, cmd, fileList, offset, st).
        nat (int (length (files fileList)) - offset))") auto

text \<open>The loop equation is used by hand, not by the simplifier.\<close>

declare batched_loop.simps [simp del]

text \<open>The \<^verbatim>\<open>foreach\<close> loop of the other branch.\<close>

fun file_loop ::
  "'w env \<Rightarrow> string \<Rightarrow> string \<Rightarrow> string list \<Rightarrow> 'w store \<Rightarrow> unit outcome \<times> 'w store" where
  "file_loop E name cmd [] st = (Returned (), st)"
| "file_loop E name cmd (path # cells) st =
     (let st1 = ereport_notice (ProcessingFile name path) st
      in case ExecuteFileListPipelineForFile E name cmd path st1 of
           (Raised e, st2) \<Rightarrow> (Raised e, st2)
         | (Returned u, st2) \<Rightarrow>
             (case InsertProcessedFile name path st2 of
                (Raised e, st3) \<Rightarrow> (Raised e, st3)
              | (Returned v, st3) \<Rightarrow> file_loop E name cmd cells st3))"

definition ExecuteFileListPipeline ::
  "'w env \<Rightarrow> string \<Rightarrow> string \<Rightarrow> 'w store \<Rightarrow> unit outcome \<times> 'w store" where
  "ExecuteFileListPipeline E name cmd st =
     (case GetUnprocessedFilesForPipeline E name st of
        (Raised e, st1) \<Rightarrow> (Raised e, st1)
      | (Returned fileList, st1) \<Rightarrow>
          if files fileList = []
          then (Returned (), ereport_notice (NoFilesToProcess name) st1)
          else if batched fileList
          then batched_loop E name cmd fileList 0 st1
          else file_loop E name cmd (files fileList) st1)"

subsection \<open>pipeline.c\<close>

text \<open>
  What \<^verbatim>\<open>pipeline.c\<close> calls in files that are not here: the execution of the two range
  strategies (\<^verbatim>\<open>sequence.c\<close>, \<^verbatim>\<open>time_interval.c\<close>) and the removal of a cron job
  (\<^verbatim>\<open>cron.c\<close>). They are parameters of the model.
\<close>

record 'w ext =
  ExecuteSequenceRangePipeline :: "string \<Rightarrow> string \<Rightarrow> 'w store \<Rightarrow> unit outcome \<times> 'w store"
  ExecuteTimeIntervalPipeline :: "string \<Rightarrow> string \<Rightarrow> 'w store \<Rightarrow> unit outcome \<times> 'w store"
  UnscheduleCronJob :: "string \<Rightarrow> 'w store \<Rightarrow> unit outcome \<times> 'w store"

text \<open>Modelled from the spec: \<^verbatim>\<open>UpdateLastProcessedSequenceNumber\<close> and
  \<^verbatim>\<open>UpdateLastProcessedTimeInterval\<close> (\<^verbatim>\<open>sequence.c\<close>, \<^verbatim>\<open>time_interval.c\<close>) are missing. The
  spec's \<open>advance\<close> sets the checkpoint of the named pipeline to the given bound.\<close>

definition UpdateLastProcessedSequenceNumber ::
  "string \<Rightarrow> int \<Rightarrow> 'w store \<Rightarrow> unit outcome \<times> 'w store" where
  "UpdateLastProcessedSequenceNumber name lastSequenceNumber st =
     (case sequence_pipelines st name of
        None \<Rightarrow> (Returned (), st)
      | Some v \<Rightarrow>
          (Returned (),
           st\<lparr>sequence_pipelines := (sequence_pipelines st)(name \<mapsto> lastSequenceNumber)\<rparr>))"

definition UpdateLastProcessedTimeInterval ::
  "string \<Rightarrow> int \<Rightarrow> 'w store \<Rightarrow> unit outcome \<times> 'w store" where
  "UpdateLastProcessedTimeInterval name lastProcessedTime st =
     (case time_interval_pipelines st name of
        None \<Rightarrow> (Returned (), st)
      | Some row \<Rightarrow>
          (Returned (),
           st\<lparr>time_interval_pipelines := (time_interval_pipelines st)(name \<mapsto>
                 row\<lparr>ti_last_processed_time := lastProcessedTime\<rparr>)\<rparr>))"

text \<open>Modelled from the spec: \<^verbatim>\<open>InitializeTimeRangePipelineState\<close> (\<^verbatim>\<open>time_interval.c\<close>) is
  missing. Creation inserts the kind's initial checkpoint state, and the initial value of a
  time-interval checkpoint is the configured start time.\<close>

definition InitializeTimeRangePipelineState ::
  "string \<Rightarrow> bool \<Rightarrow> int \<Rightarrow> int \<Rightarrow> int \<Rightarrow> 'w store \<Rightarrow> unit outcome \<times> 'w store" where
  "InitializeTimeRangePipelineState name isBatched startTime timeInterval minDelay st =
     (if time_interval_pipelines st name \<noteq> None
      then (Raised (UniqueViolation name), st)
      else (Returned (),
            st\<lparr>time_interval_pipelines := (time_interval_pipelines st)(name \<mapsto>
                  \<lparr>ti_batched = isBatched, ti_last_processed_time = startTime,
                   ti_time_interval = timeInterval, ti_min_delay = minDelay\<rparr>)\<rparr>))"

text \<open>Modelled from the spec: the key of \<^verbatim>\<open>incremental.pipelines\<close> (its definition is
  missing) is the pipeline name, so the insert of \<^verbatim>\<open>InsertPipeline\<close> raises when the name is
  taken. The owner written is \<open>savedUserId\<close>.\<close>

definition InsertPipeline ::
  "string \<Rightarrow> PipelineType \<Rightarrow> Oid \<Rightarrow> string \<Rightarrow> 'w store \<Rightarrow> unit outcome \<times> 'w store" where
  "InsertPipeline name type sourceRelation cmd st =
     (let (savedUserId, savedSecurityContext) = GetUserIdAndSecContext st;
          st1 = SetUserIdAndSecContext BOOTSTRAP_SUPERUSERID SECURITY_LOCAL_USERID_CHANGE st
      in if pipelines st1 name \<noteq> None
         then (Raised (UniqueViolation name), st1)
         else
           let st2 = st1\<lparr>pipelines := (pipelines st1)(name \<mapsto>
                      \<lparr>p_pipeline_type = type, p_owner_id = savedUserId,
                       p_source_relation = sourceRelation, p_command = cmd\<rparr>)\<rparr>
           in (Returned (), SetUserIdAndSecContext savedUserId savedSecurityContext st2))"

definition ReadPipelineDesc :: "string \<Rightarrow> 'w store \<Rightarrow> PipelineDesc outcome \<times> 'w store" where
  "ReadPipelineDesc name st =
     (let (savedUserId, savedSecurityContext) = GetUserIdAndSecContext st;
          st1 = SetUserIdAndSecContext BOOTSTRAP_SUPERUSERID SECURITY_LOCAL_USERID_CHANGE st
      in case pipelines st1 name of
           None \<Rightarrow> (Raised (NoSuchPipeline name), st1)
         | Some row \<Rightarrow>
             (Returned \<lparr>pipelineName = name, pipelineType = p_pipeline_type row,
                        ownerId = p_owner_id row, sourceRelationId = p_source_relation row,
                        command = p_command row\<rparr>,
              SetUserIdAndSecContext savedUserId savedSecurityContext st1))"

text \<open>\<^verbatim>\<open>superuser()\<close> asks for the current user; \<^verbatim>\<open>GetUserId()\<close> is the current user.\<close>

definition superuser :: "'w env \<Rightarrow> 'w store \<Rightarrow> bool" where
  "superuser E st = rolsuper E (userId st)"

definition GetUserId :: "'w store \<Rightarrow> Oid" where
  "GetUserId st = userId st"

definition EnsurePipelineOwner ::
  "'w env \<Rightarrow> string \<Rightarrow> Oid \<Rightarrow> 'w store \<Rightarrow> unit outcome \<times> 'w store" where
  "EnsurePipelineOwner E name owner st =
     (if superuser E st then (Returned (), st)
      else if owner \<noteq> GetUserId st then (Raised (PermissionDenied name), st)
      else (Returned (), st))"

definition ExecutePipeline ::
  "'w ext \<Rightarrow> string \<Rightarrow> PipelineType \<Rightarrow> string \<Rightarrow> 'w store \<Rightarrow> unit outcome \<times> 'w store" where
  "ExecutePipeline X name type cmd st =
     (if type = SEQUENCE_RANGE_PIPELINE then ExecuteSequenceRangePipeline X name cmd st
      else if type = TIME_INTERVAL_PIPELINE then ExecuteTimeIntervalPipeline X name cmd st
      else (Raised (UnknownPipelineType type), st))"

definition ResetPipeline :: "string \<Rightarrow> PipelineType \<Rightarrow> 'w store \<Rightarrow> unit outcome \<times> 'w store" where
  "ResetPipeline name type st =
     (if type = SEQUENCE_RANGE_PIPELINE then UpdateLastProcessedSequenceNumber name 0 st
      else if type = TIME_INTERVAL_PIPELINE then UpdateLastProcessedTimeInterval name 0 st
      else (Raised (UnknownPipelineType type), st))"

text \<open>Modelled from the spec: the table definitions are missing; by the spec the deletion of
  a descriptor cascades to the state and log rows of the pipeline. \<^verbatim>\<open>DeletePipeline\<close> itself
  deletes the row of \<^verbatim>\<open>incremental.pipelines\<close>.\<close>

definition DeletePipeline :: "string \<Rightarrow> 'w store \<Rightarrow> unit outcome \<times> 'w store" where
  "DeletePipeline name st =
     (let (savedUserId, savedSecurityContext) = GetUserIdAndSecContext st;
          st1 = SetUserIdAndSecContext BOOTSTRAP_SUPERUSERID SECURITY_LOCAL_USERID_CHANGE st;
          st2 = st1\<lparr>pipelines := (pipelines st1)(name := None),
                    file_list_pipelines := (file_list_pipelines st1)(name := None),
                    processed_files := filter (\<lambda>(pn, pp). pn \<noteq> name) (processed_files st1),
                    sequence_pipelines := (sequence_pipelines st1)(name := None),
                    time_interval_pipelines := (time_interval_pipelines st1)(name := None)\<rparr>
      in (Returned (), SetUserIdAndSecContext savedUserId savedSecurityContext st2))"

definition GetCronJobNameForPipeline :: "string \<Rightarrow> string" where
  "GetCronJobNameForPipeline name = ''pipeline:'' @ name"

definition incremental_execute_pipeline ::
  "'w env \<Rightarrow> 'w ext \<Rightarrow> string \<Rightarrow> 'w store \<Rightarrow> unit outcome \<times> 'w store" where
  "incremental_execute_pipeline E X name st =
     (case ReadPipelineDesc name st of
        (Raised e, st1) \<Rightarrow> (Raised e, st1)
      | (Returned pipelineDesc, st1) \<Rightarrow>
          (case EnsurePipelineOwner E name (ownerId pipelineDesc) st1 of
             (Raised e, st2) \<Rightarrow> (Raised e, st2)
           | (Returned u, st2) \<Rightarrow>
               ExecutePipeline X name (pipelineType pipelineDesc) (command pipelineDesc) st2))"

definition incremental_reset_pipeline ::
  "'w env \<Rightarrow> string \<Rightarrow> 'w store \<Rightarrow> unit outcome \<times> 'w store" where
  "incremental_reset_pipeline E name st =
     (case ReadPipelineDesc name st of
        (Raised e, st1) \<Rightarrow> (Raised e, st1)
      | (Returned pipelineDesc, st1) \<Rightarrow>
          (case EnsurePipelineOwner E name (ownerId pipelineDesc) st1 of
             (Raised e, st2) \<Rightarrow> (Raised e, st2)
           | (Returned u, st2) \<Rightarrow> ResetPipeline name (pipelineType pipelineDesc) st2))"

definition incremental_drop_pipeline ::
  "'w env \<Rightarrow> 'w ext \<Rightarrow> string \<Rightarrow> 'w store \<Rightarrow> unit outcome \<times> 'w store" where
  "incremental_drop_pipeline E X name st =
     (case ReadPipelineDesc name st of
        (Raised e, st1) \<Rightarrow> (Raised e, st1)
      | (Returned pipelineDesc, st1) \<Rightarrow>
          (case EnsurePipelineOwner E name (ownerId pipelineDesc) st1 of
             (Raised e, st2) \<Rightarrow> (Raised e, st2)
           | (Returned u, st2) \<Rightarrow>
               (case DeletePipeline name st2 of
                  (Raised e, st3) \<Rightarrow> (Raised e, st3)
                | (Returned v, st3) \<Rightarrow>
                    UnscheduleCronJob X (GetCronJobNameForPipeline name) st3)))"

subsection \<open>Notions used in the statements\<close>

text \<open>The delta of a pipeline: the listing without the paths logged for the pipeline, in
  the order of the listing.\<close>

definition delta :: "'w env \<Rightarrow> string \<Rightarrow> file_list_pipelines_row \<Rightarrow> 'w store \<Rightarrow> string list" where
  "delta E name row st =
     filter (\<lambda>p. (name, p) \<notin> set (processed_files st))
       (listFunctions E (fl_list_function row) (fl_file_pattern row))"

fun returned :: "'a outcome \<Rightarrow> bool" where
  "returned (Returned v) = True"
| "returned (Raised e) = False"

text \<open>The batch that starts at an offset: at most \<open>maxBatchSize\<close> paths when that is
  positive, all the remaining paths otherwise.\<close>

definition batch_at :: "int \<Rightarrow> string list \<Rightarrow> int \<Rightarrow> string list" where
  "batch_at maxSize fs offset =
     (if maxSize > 0 then take (nat maxSize) (drop (nat offset) fs) else drop (nat offset) fs)"

text \<open>What a part of an execution adds to the store: the user commands it handed to SPI, and
  the paths it logged for the pipeline; the state rows of the file list pipelines stay.\<close>

definition progress ::
  "string \<Rightarrow> (string \<times> cmd_arg) list \<Rightarrow> string list \<Rightarrow> 'w store \<Rightarrow> 'w store \<Rightarrow> bool" where
  "progress name calls paths st st' \<longleftrightarrow>
     invocations st' = invocations st @ calls
     \<and> processed_files st' = processed_files st @ map (Pair name) paths
     \<and> file_list_pipelines st' = file_list_pipelines st"

text \<open>The number of paths per command invocation: one for a pipeline that is not batched,
  the batch size for a batched one, and the whole delta (of \<open>n\<close> paths) when the batch size
  is NULL or not positive.\<close>

definition unit_size :: "file_list_pipelines_row \<Rightarrow> nat \<Rightarrow> nat" where
  "unit_size row n =
     (if fl_batched row
      then (case fl_max_batch_size row of None \<Rightarrow> n | Some m \<Rightarrow> if m > 0 then nat m else n)
      else 1)"

text \<open>
  The transaction around an entry point. Neither file commits (\<^verbatim>\<open>SPI_commit\<close>) or opens a
  subtransaction (\<^verbatim>\<open>PG_TRY\<close>): an execution runs in the transaction of the statement that
  called it, and an \<^verbatim>\<open>ereport(ERROR)\<close> that leaves it aborts that transaction. The abort
  undoes what the transaction wrote to the tables and to the user's data, and puts the
  user identity back; the notices already reported and the record of the invocations made
  stay.
\<close>

definition in_transaction ::
  "('w store \<Rightarrow> 'a outcome \<times> 'w store) \<Rightarrow> 'w store \<Rightarrow> 'a outcome \<times> 'w store" where
  "in_transaction f st =
     (case f st of
        (Returned v, st') \<Rightarrow> (Returned v, st')
      | (Raised e, st') \<Rightarrow>
          (Raised e, st\<lparr>notices := notices st', invocations := invocations st'\<rparr>))"

subsection \<open>Example stores\<close>

text \<open>
  The scenario of the spec: a list function that returns \<open>a.csv\<close>, \<open>b.csv\<close>, \<open>c.csv\<close> for the
  pattern \<open>*.csv\<close>, and a batched pipeline \<open>files\<close> with batches of two. The user's data is the
  list of paths loaded so far; the command \<open>load\<close> appends its argument, and the command
  \<open>load_strict\<close> raises when it is handed \<open>c.csv\<close>. User 42 is an ordinary role, user 10 is
  the superuser.
\<close>

definition csv_row :: file_list_pipelines_row where
  "csv_row = \<lparr>fl_file_pattern = ''*.csv'', fl_batched = True,
              fl_list_function = ''public.list_files'', fl_max_batch_size = Some 2\<rparr>"

fun arg_paths :: "cmd_arg \<Rightarrow> string list" where
  "arg_paths (TextArg path) = [path]"
| "arg_paths (TextArrayArg paths) = paths"

definition csv_env :: "string list env" where
  "csv_env = \<lparr>listFunctions = (\<lambda>f pattern.
                  if f = ''public.list_files'' \<and> pattern = ''*.csv''
                  then [''a.csv'', ''b.csv'', ''c.csv''] else []),
              runCommand = (\<lambda>cmd arg w.
                  if cmd = ''load_strict'' \<and> ''c.csv'' \<in> set (arg_paths arg) then None
                  else Some (w @ arg_paths arg)),
              rolsuper = (\<lambda>u. u = 10)\<rparr>"

definition csv_store :: "string list store" where
  "csv_store = \<lparr>userId = 42, secContext = 0,
                pipelines = Map.empty,
                file_list_pipelines = [''files'' \<mapsto> csv_row],
                processed_files = [],
                sequence_pipelines = Map.empty,
                time_interval_pipelines = Map.empty,
                notices = [], invocations = [], world = []\<rparr>"

text \<open>
  A registry with a sequence pipeline \<open>events\<close> owned by role 7 and a time-interval pipeline
  \<open>hourly\<close> owned by role 42, and collaborators that do nothing.
\<close>

definition reg_store :: "string list store" where
  "reg_store = \<lparr>userId = 42, secContext = 0,
                pipelines = [''events'' \<mapsto> \<lparr>p_pipeline_type = CHR ''s'', p_owner_id = 7,
                                            p_source_relation = 16384, p_command = ''rollup''\<rparr>,
                             ''hourly'' \<mapsto> \<lparr>p_pipeline_type = CHR ''t'', p_owner_id = 42,
                                            p_source_relation = 0, p_command = ''export''\<rparr>],
                file_list_pipelines = Map.empty,
                processed_files = [],
                sequence_pipelines = [''events'' \<mapsto> 25],
                time_interval_pipelines = [''hourly'' \<mapsto>
                   \<lparr>ti_batched = False, ti_last_processed_time = 7200,
                    ti_time_interval = 3600, ti_min_delay = 30\<rparr>],
                notices = [], invocations = [], world = []\<rparr>"

definition idle_ext :: "string list ext" where
  "idle_ext = \<lparr>ExecuteSequenceRangePipeline = (\<lambda>name cmd st. (Returned (), st)),
               ExecuteTimeIntervalPipeline = (\<lambda>name cmd st. (Returned (), st)),
               UnscheduleCronJob = (\<lambda>jobName st. (Returned (), st))\<rparr>"

text \<open>How a function that switches identity may leave: with the caller's identity and
  security context when it returns, with those of the switch when it raises.\<close>

definition identity_on_exit :: "'w store \<Rightarrow> 'a outcome \<times> 'w store \<Rightarrow> bool" where
  "identity_on_exit st r =
     (case r of
        (Returned v, st') \<Rightarrow> userId st' = userId st \<and> secContext st' = secContext st
      | (Raised e, st') \<Rightarrow> userId st' = BOOTSTRAP_SUPERUSERID
                            \<and> secContext st' = SECURITY_LOCAL_USERID_CHANGE)"

subsection \<open>Helper lemmas\<close>

lemma lappend_rows_append: "lappend_rows acc rows = acc @ rows"
  by (induction rows arbitrary: acc) auto

lemma select_unprocessed_filter:
  "select_unprocessed name listing proc = filter (\<lambda>p. (name, p) \<notin> set proc) listing"
proof (induction listing)
  case Nil
  show ?case by (simp add: select_unprocessed_def left_join_processed_def)
next
  case (Cons p ps)
  have step: "select_unprocessed name (p # ps) proc =
      map fst (filter (\<lambda>(path, procPath). procPath = None)
        (case filter (\<lambda>(pn, pp). pn = name \<and> p = pp) proc of
           [] \<Rightarrow> [(p, None)]
         | m # ms \<Rightarrow> map (\<lambda>(pn, pp). (p, Some pp)) (m # ms)))
      @ select_unprocessed name ps proc"
    by (simp add: select_unprocessed_def left_join_processed_def)
  show ?case
  proof (cases "(name, p) \<in> set proc")
    case True
    then have "filter (\<lambda>(pn, pp). pn = name \<and> p = pp) proc \<noteq> []"
      by (auto simp: filter_empty_conv)
    then obtain m ms where ms: "filter (\<lambda>(pn, pp). pn = name \<and> p = pp) proc = m # ms"
      by (cases "filter (\<lambda>(pn, pp). pn = name \<and> p = pp) proc") auto
    have "filter (\<lambda>(path, procPath). procPath = None)
            (map (\<lambda>(pn, pp). (p, Some pp)) (m # ms)) = []"
      by (auto simp: filter_empty_conv split: prod.splits)
    with step ms True Cons show ?thesis by simp
  next
    case False
    then have "filter (\<lambda>(pn, pp). pn = name \<and> p = pp) proc = []"
      by (auto simp: filter_empty_conv)
    with step False Cons show ?thesis by simp
  qed
qed

lemma restore_identity:
  "SetUserIdAndSecContext (userId st) (secContext st) (SetUserIdAndSecContext u c st) = st"
  by (simp add: SetUserIdAndSecContext_def)

lemma GetUnprocessedFileList_eq:
  "GetUnprocessedFileList E name listFunction filePattern st =
     (Returned (filter (\<lambda>p. (name, p) \<notin> set (processed_files st))
        (listFunctions E listFunction filePattern)), st)"
  by (simp add: GetUnprocessedFileList_def GetUserIdAndSecContext_def restore_identity
      lappend_rows_append select_unprocessed_filter)
     (simp add: SetUserIdAndSecContext_def)

lemma GetUnprocessedFilesForPipeline_eq:
  assumes "file_list_pipelines st name = Some row"
  shows "GetUnprocessedFilesForPipeline E name st =
     (Returned \<lparr>files = delta E name row st, batched = fl_batched row,
                maxBatchSize = (case fl_max_batch_size row of None \<Rightarrow> - 1 | Some v \<Rightarrow> v)\<rparr>, st)"
proof -
  have "file_list_pipelines
          (SetUserIdAndSecContext BOOTSTRAP_SUPERUSERID SECURITY_LOCAL_USERID_CHANGE st) name
        = Some row"
    using assms by (simp add: SetUserIdAndSecContext_def)
  then show ?thesis
    by (simp add: GetUnprocessedFilesForPipeline_def GetUserIdAndSecContext_def
        restore_identity GetUnprocessedFileList_eq delta_def)
qed

lemma GetUnprocessedFilesForPipeline_Returned:
  assumes "GetUnprocessedFilesForPipeline E name st = (Returned fileList, st1)"
  shows "\<exists>row. file_list_pipelines st name = Some row \<and> st1 = st
           \<and> fileList = \<lparr>files = delta E name row st, batched = fl_batched row,
                maxBatchSize = (case fl_max_batch_size row of None \<Rightarrow> - 1 | Some v \<Rightarrow> v)\<rparr>"
proof (cases "file_list_pipelines st name")
  case None
  then have "file_list_pipelines
          (SetUserIdAndSecContext BOOTSTRAP_SUPERUSERID SECURITY_LOCAL_USERID_CHANGE st) name
        = None"
    by (simp add: SetUserIdAndSecContext_def)
  with assms show ?thesis
    by (simp add: GetUnprocessedFilesForPipeline_def GetUserIdAndSecContext_def)
next
  case (Some row)
  from GetUnprocessedFilesForPipeline_eq [OF Some, of E] assms Some show ?thesis by simp
qed

lemma ReadPipelineDesc_eq:
  assumes "pipelines st name = Some row"
  shows "ReadPipelineDesc name st =
     (Returned \<lparr>pipelineName = name, pipelineType = p_pipeline_type row,
                ownerId = p_owner_id row, sourceRelationId = p_source_relation row,
                command = p_command row\<rparr>, st)"
proof -
  have "pipelines (SetUserIdAndSecContext BOOTSTRAP_SUPERUSERID SECURITY_LOCAL_USERID_CHANGE st)
          name = Some row"
    using assms by (simp add: SetUserIdAndSecContext_def)
  then show ?thesis
    by (simp add: ReadPipelineDesc_def GetUserIdAndSecContext_def restore_identity)
qed

lemma count_rows_zero:
  "length (filter (\<lambda>(pn, pp). pn = name) proc) = 0 \<longleftrightarrow> (\<forall>path. (name, path) \<notin> set proc)"
  by (auto simp: filter_empty_conv)

lemma filter_other_rows:
  "\<forall>path. (name, path) \<notin> set proc \<Longrightarrow> filter (\<lambda>(pn, pp). pn \<noteq> name) proc = proc"
  by (induction proc) auto

lemma identity_on_exit_Returned:
  "identity_on_exit st (Returned v, st') \<longleftrightarrow>
     userId st' = userId st \<and> secContext st' = secContext st"
  by (simp add: identity_on_exit_def)

lemma identity_on_exit_Raised:
  "identity_on_exit st (Raised e, st') \<longleftrightarrow>
     userId st' = BOOTSTRAP_SUPERUSERID \<and> secContext st' = SECURITY_LOCAL_USERID_CHANGE"
  by (simp add: identity_on_exit_def)

lemmas identity_on_exit_simps = identity_on_exit_Returned identity_on_exit_Raised
  GetUserIdAndSecContext_def SetUserIdAndSecContext_def

lemma identity_InitializeFileListPipelineState:
  "identity_on_exit st (InitializeFileListPipelineState name pattern b listFunction m st)"
  by (simp add: InitializeFileListPipelineState_def identity_on_exit_simps Let_def)

lemma identity_GetUnprocessedFileList:
  "identity_on_exit st (GetUnprocessedFileList E name listFunction filePattern st)"
  by (simp add: GetUnprocessedFileList_eq identity_on_exit_simps)

lemma identity_GetUnprocessedFilesForPipeline:
  "identity_on_exit st (GetUnprocessedFilesForPipeline E name st)"
proof (cases "file_list_pipelines st name")
  case None
  then show ?thesis
    by (simp add: GetUnprocessedFilesForPipeline_def identity_on_exit_simps Let_def)
next
  case (Some row)
  then show ?thesis
    by (simp add: GetUnprocessedFilesForPipeline_eq identity_on_exit_simps)
qed

lemma identity_InsertProcessedFile:
  "identity_on_exit st (InsertProcessedFile name path st)"
  by (simp add: InsertProcessedFile_def insert_processed_files_def identity_on_exit_simps Let_def)

lemma identity_RemoveProcessedFileList:
  "identity_on_exit st (RemoveProcessedFileList name st)"
  by (simp add: RemoveProcessedFileList_def delete_processed_files_def identity_on_exit_simps
      Let_def)

lemma identity_InsertPipeline:
  "identity_on_exit st (InsertPipeline name type sourceRelation cmd st)"
  by (simp add: InsertPipeline_def identity_on_exit_simps Let_def)

lemma identity_ReadPipelineDesc:
  "identity_on_exit st (ReadPipelineDesc name st)"
  by (simp add: ReadPipelineDesc_def identity_on_exit_simps Let_def split: option.splits)

lemma identity_DeletePipeline:
  "identity_on_exit st (DeletePipeline name st)"
  by (simp add: DeletePipeline_def identity_on_exit_simps Let_def)

lemma progress_refl: "progress name [] [] st st"
  by (simp add: progress_def)

lemma progress_trans:
  "progress name c1 p1 st st1 \<Longrightarrow> progress name c2 p2 st1 st2 \<Longrightarrow>
   progress name (c1 @ c2) (p1 @ p2) st st2"
  by (simp add: progress_def)

lemma progress_notice:
  "progress name calls paths (ereport_notice n st) st' \<longleftrightarrow> progress name calls paths st st'"
  by (simp add: progress_def ereport_notice_def)

lemma InsertProcessedFile_eq:
  "InsertProcessedFile name path st =
     (if (name, path) \<in> set (processed_files st)
      then (Raised (UniqueViolation path),
            SetUserIdAndSecContext BOOTSTRAP_SUPERUSERID SECURITY_LOCAL_USERID_CHANGE st)
      else (Returned (), st\<lparr>processed_files := processed_files st @ [(name, path)]\<rparr>))"
  by (simp add: InsertProcessedFile_def insert_processed_files_def GetUserIdAndSecContext_def
      SetUserIdAndSecContext_def Let_def)

lemma InsertProcessedFile_Returned:
  "InsertProcessedFile name path st = (Returned u, st') \<Longrightarrow> progress name [] [path] st st'"
  by (auto simp: InsertProcessedFile_eq progress_def split: if_splits)

lemma InsertProcessedFile_Raised:
  "InsertProcessedFile name path st = (Raised e, st') \<Longrightarrow> e \<noteq> CommandFailed"
  by (auto simp: InsertProcessedFile_eq split: if_splits)

lemma execute_command_Returned:
  "execute_command E cmd arg st = (Returned u, st') \<Longrightarrow> progress name [(cmd, arg)] [] st st'"
  by (auto simp: execute_command_def progress_def Let_def split: option.splits)

lemma execute_command_Raised:
  "execute_command E cmd arg st = (Raised e, st') \<Longrightarrow>
     e = CommandFailed \<and> progress name [(cmd, arg)] [] st st'"
  by (auto simp: execute_command_def progress_def Let_def split: option.splits)

lemma fill_datums_eq:
  "maxSize \<le> 0 \<or> datumIndex < maxSize \<Longrightarrow>
   fill_datums maxSize cells datumIndex =
     (if maxSize > 0 then take (nat (maxSize - datumIndex)) cells else cells)"
proof (induction cells arbitrary: datumIndex)
  case Nil
  then show ?case by simp
next
  case (Cons path cells)
  show ?case
  proof (cases "maxSize > 0 \<and> datumIndex + 1 = maxSize")
    case True
    then have "nat (maxSize - datumIndex) = Suc 0" by auto
    with True show ?thesis by (simp add: Let_def)
  next
    case False
    with Cons.prems have ok: "maxSize \<le> 0 \<or> datumIndex + 1 < maxSize" by auto
    have "nat (maxSize - datumIndex) = Suc (nat (maxSize - (datumIndex + 1)))" if "maxSize > 0"
      using that ok by auto
    with False Cons.IH [OF ok] show ?thesis by (auto simp: Let_def)
  qed
qed

lemma insert_datums_Returned:
  "insert_datums name maxSize cells fileIndex st = (Returned u, st') \<Longrightarrow>
   maxSize \<le> 0 \<or> fileIndex < maxSize \<Longrightarrow>
   progress name [] (if maxSize > 0 then take (nat (maxSize - fileIndex)) cells else cells) st st'"
proof (induction cells arbitrary: fileIndex st)
  case Nil
  then show ?case by (simp add: progress_refl)
next
  case (Cons path cells)
  from Cons.prems(1) obtain v st1 where
    ins: "InsertProcessedFile name path st = (Returned v, st1)"
    by (cases "InsertProcessedFile name path st"; cases "fst (InsertProcessedFile name path st)")
       auto
  note p1 = InsertProcessedFile_Returned [OF ins]
  show ?case
  proof (cases "maxSize > 0 \<and> fileIndex + 1 = maxSize")
    case True
    with Cons.prems(1) ins have "st' = st1" by (simp add: Let_def)
    moreover from True have "nat (maxSize - fileIndex) = Suc 0" by auto
    ultimately show ?thesis using p1 True by simp
  next
    case False
    with Cons.prems(2) have ok: "maxSize \<le> 0 \<or> fileIndex + 1 < maxSize" by auto
    from False Cons.prems(1) ins
    have rec: "insert_datums name maxSize cells (fileIndex + 1) st1 = (Returned u, st')"
      by (auto simp: Let_def)
    have n: "nat (maxSize - fileIndex) = Suc (nat (maxSize - (fileIndex + 1)))" if "maxSize > 0"
      using that ok by auto
    from progress_trans [OF p1 Cons.IH [OF rec ok]] n show ?thesis by auto
  qed
qed

lemma insert_datums_Raised:
  "insert_datums name maxSize cells fileIndex st = (Raised e, st') \<Longrightarrow> e \<noteq> CommandFailed"
proof (induction cells arbitrary: fileIndex st)
  case Nil
  then show ?case by simp
next
  case (Cons path cells)
  show ?case
  proof (cases "InsertProcessedFile name path st")
    case (Pair out st1)
    show ?thesis
    proof (cases out)
      case (Returned v)
      with Pair Cons.prems Cons.IH show ?thesis
        by (auto simp: Let_def split: if_splits)
    next
      case (Raised e1)
      with Pair Cons.prems InsertProcessedFile_Raised [of name path st e1 st1] show ?thesis
        by simp
    qed
  qed
qed

lemma ceil_div_gt: 
  fixes j k n :: nat
  assumes "0 < k" "j * k < n"
  shows "j < (n + k - 1) div k"
proof -
  from assms have "Suc j * k \<le> n + k - 1" by simp
  with assms(1) have "Suc j \<le> (n + k - 1) div k"
    by (simp only: less_eq_div_iff_mult_less_eq)
  then show ?thesis by simp
qed

lemma ceil_div_last:
  fixes j k n :: nat
  assumes "0 < k" "j * k < n" "n \<le> Suc j * k"
  shows "(n + k - 1) div k = Suc j"
proof -
  from assms have "n + k - 1 < Suc (Suc j) * k" by simp
  with assms(1) have "(n + k - 1) div k < Suc (Suc j)"
    by (simp only: div_less_iff_less_mult)
  with ceil_div_gt [OF assms(1,2)] show ?thesis by simp
qed

lemma filesArray_eq:
  assumes "0 \<le> offset"
  shows "take (nat (if maxSize > 0 \<and> int (length fs) - offset > maxSize
                    then maxSize else int (length fs) - offset))
           (fill_datums maxSize (drop (nat offset) fs) 0)
         = batch_at maxSize fs offset"
proof -
  have f: "fill_datums maxSize (drop (nat offset) fs) 0 = batch_at maxSize fs offset"
    using fill_datums_eq [of maxSize 0 "drop (nat offset) fs"]
    by (auto simp: batch_at_def)
  have "length (batch_at maxSize fs offset)
        \<le> nat (if maxSize > 0 \<and> int (length fs) - offset > maxSize
                then maxSize else int (length fs) - offset)"
    using assms by (auto simp: batch_at_def)
  with f show ?thesis by simp
qed

lemma ExecuteBatchedFileListPipeline_Returned:
  assumes "0 \<le> offset"
    and "ExecuteBatchedFileListPipeline E name cmd fl offset st = (Returned u, st')"
  shows "progress name [(cmd, TextArrayArg (batch_at (maxBatchSize fl) (files fl) offset))]
           (batch_at (maxBatchSize fl) (files fl) offset) st st'"
proof -
  let ?chunk = "batch_at (maxBatchSize fl) (files fl) offset"
  let ?st1 = "ereport_notice (ProcessingFiles name
      (if maxBatchSize fl > 0 \<and> int (length (files fl)) - offset > maxBatchSize fl
       then maxBatchSize fl else int (length (files fl)) - offset)) st"
  from assms(2) have run: "(case execute_command E cmd (TextArrayArg ?chunk) ?st1 of
        (Raised e, st2) \<Rightarrow> (Raised e, st2)
      | (Returned u, st2) \<Rightarrow>
          insert_datums name (maxBatchSize fl) (drop (nat offset) (files fl)) 0 st2)
      = (Returned u, st')"
    by (simp add: ExecuteBatchedFileListPipeline_def Let_def filesArray_eq [OF assms(1)]
        ExecuteFileListPipelineForFileArray_def)
  then obtain v st2 where
    c: "execute_command E cmd (TextArrayArg ?chunk) ?st1 = (Returned v, st2)" and
    i: "insert_datums name (maxBatchSize fl) (drop (nat offset) (files fl)) 0 st2 = (Returned u, st')"
    by (cases "execute_command E cmd (TextArrayArg ?chunk) ?st1";
        cases "fst (execute_command E cmd (TextArrayArg ?chunk) ?st1)") auto
  from execute_command_Returned [OF c, of name]
  have p1: "progress name [(cmd, TextArrayArg ?chunk)] [] st st2"
    by (simp add: progress_notice)
  have "maxBatchSize fl \<le> 0 \<or> 0 < maxBatchSize fl" by auto
  from insert_datums_Returned [OF i this]
  have p2: "progress name [] ?chunk st2 st'"
    by (auto simp: batch_at_def)
  from progress_trans [OF p1 p2] show ?thesis by simp
qed

lemma ExecuteBatchedFileListPipeline_CommandFailed:
  assumes "0 \<le> offset"
    and "ExecuteBatchedFileListPipeline E name cmd fl offset st = (Raised CommandFailed, st')"
  shows "progress name [(cmd, TextArrayArg (batch_at (maxBatchSize fl) (files fl) offset))]
           [] st st'"
proof -
  let ?chunk = "batch_at (maxBatchSize fl) (files fl) offset"
  let ?st1 = "ereport_notice (ProcessingFiles name
      (if maxBatchSize fl > 0 \<and> int (length (files fl)) - offset > maxBatchSize fl
       then maxBatchSize fl else int (length (files fl)) - offset)) st"
  from assms(2) have run: "(case execute_command E cmd (TextArrayArg ?chunk) ?st1 of
        (Raised e, st2) \<Rightarrow> (Raised e, st2)
      | (Returned u, st2) \<Rightarrow>
          insert_datums name (maxBatchSize fl) (drop (nat offset) (files fl)) 0 st2)
      = (Raised CommandFailed, st')"
    by (simp add: ExecuteBatchedFileListPipeline_def Let_def filesArray_eq [OF assms(1)]
        ExecuteFileListPipelineForFileArray_def)
  show ?thesis
  proof (cases "execute_command E cmd (TextArrayArg ?chunk) ?st1")
    case (Pair out st2)
    show ?thesis
    proof (cases out)
      case (Returned v)
      with Pair run insert_datums_Raised show ?thesis by fastforce
    next
      case (Raised e)
      with Pair run have "execute_command E cmd (TextArrayArg ?chunk) ?st1 = (Raised e, st')"
        by simp
      from execute_command_Raised [OF this, of name] show ?thesis
        by (simp add: progress_notice)
    qed
  qed
qed

lemma batch_at_nat:
  "0 < k \<Longrightarrow> batch_at (int k) fs (int (j * k)) = take k (drop (j * k) fs)"
  by (simp add: batch_at_def del: of_nat_mult)

lemma batched_loop_Returned:
  assumes m: "maxBatchSize fl = int k" and k: "0 < k"
  shows "j * k < length (files fl) \<Longrightarrow>
         batched_loop E name cmd fl (int (j * k)) st = (Returned u, st') \<Longrightarrow>
         progress name
           (map (\<lambda>i. (cmd, TextArrayArg (take k (drop (i * k) (files fl)))))
              [j..<(length (files fl) + k - 1) div k])
           (drop (j * k) (files fl)) st st'"
proof (induction "length (files fl) - j * k" arbitrary: j st rule: less_induct)
  case less
  let ?fs = "files fl"
  let ?c = "(length ?fs + k - 1) div k"
  let ?call = "\<lambda>i. (cmd, TextArrayArg (take k (drop (i * k) ?fs)))"
  from less.prems(2) obtain v st1 where
    step: "ExecuteBatchedFileListPipeline E name cmd fl (int (j * k)) st = (Returned v, st1)"
    by (subst (asm) batched_loop.simps)
       (cases "ExecuteBatchedFileListPipeline E name cmd fl (int (j * k)) st";
        cases "fst (ExecuteBatchedFileListPipeline E name cmd fl (int (j * k)) st)"; auto)
  from ExecuteBatchedFileListPipeline_Returned [OF _ step]
  have p1: "progress name [?call j] (take k (drop (j * k) ?fs)) st st1"
    by (simp add: m batch_at_nat [OF k] del: of_nat_mult)
  have off: "int (j * k) + int k = int (Suc j * k)" by simp
  show ?case
  proof (cases "Suc j * k < length ?fs")
    case True
    with less.prems(2) step m k
    have rec: "batched_loop E name cmd fl (int (Suc j * k)) st1 = (Returned u, st')"
      by (subst (asm) batched_loop.simps) (simp add: Let_def off del: of_nat_mult of_nat_add)
    from True less.prems(1) k have "length ?fs - Suc j * k < length ?fs - j * k" by simp
    from less.hyps [OF this True rec]
    have p2: "progress name (map ?call [Suc j..<?c]) (drop (Suc j * k) ?fs) st1 st'" .
    have "j < ?c" using ceil_div_gt [OF k less.prems(1)] .
    then have calls: "[j..<?c] = j # [Suc j..<?c]" by (simp add: upt_conv_Cons)
    have d: "drop (Suc j * k) ?fs = drop k (drop (j * k) ?fs)" by (simp add: add.commute)
    have paths: "take k (drop (j * k) ?fs) @ drop (Suc j * k) ?fs = drop (j * k) ?fs"
      unfolding d by (rule append_take_drop_id)
    from progress_trans [OF p1 p2] calls paths show ?thesis by simp
  next
    case False
    with less.prems(2) step m k have "st' = st1"
      by (subst (asm) batched_loop.simps) (simp add: Let_def off del: of_nat_mult of_nat_add)
    moreover from False have "?c = Suc j"
      using ceil_div_last [OF k less.prems(1)] by simp
    moreover from False have "take k (drop (j * k) ?fs) = drop (j * k) ?fs" by simp
    ultimately show ?thesis using p1 by simp
  qed
qed

lemma batched_loop_CommandFailed:
  assumes m: "maxBatchSize fl = int k" and k: "0 < k"
  shows "j * k < length (files fl) \<Longrightarrow>
         batched_loop E name cmd fl (int (j * k)) st = (Raised CommandFailed, st') \<Longrightarrow>
         \<exists>i. j \<le> i \<and> i * k < length (files fl) \<and>
           progress name
             (map (\<lambda>i. (cmd, TextArrayArg (take k (drop (i * k) (files fl))))) [j..<Suc i])
             (take (i * k - j * k) (drop (j * k) (files fl))) st st'"
proof (induction "length (files fl) - j * k" arbitrary: j st rule: less_induct)
  case less
  let ?fs = "files fl"
  let ?call = "\<lambda>i. (cmd, TextArrayArg (take k (drop (i * k) ?fs)))"
  have off: "int (j * k) + int k = int (Suc j * k)" by simp
  show ?case
  proof (cases "ExecuteBatchedFileListPipeline E name cmd fl (int (j * k)) st")
    case (Pair out st1)
    show ?thesis
    proof (cases out)
      case (Raised e)
      with Pair less.prems(2)
      have "ExecuteBatchedFileListPipeline E name cmd fl (int (j * k)) st
              = (Raised CommandFailed, st')"
        by (subst (asm) batched_loop.simps) simp
      from ExecuteBatchedFileListPipeline_CommandFailed [OF _ this]
      have "progress name [?call j] [] st st'"
        by (simp add: m batch_at_nat [OF k] del: of_nat_mult)
      with less.prems(1) show ?thesis
        by (intro exI [of _ j]) simp
    next
      case (Returned v)
      with Pair have
        step: "ExecuteBatchedFileListPipeline E name cmd fl (int (j * k)) st = (Returned v, st1)"
        by simp
      from ExecuteBatchedFileListPipeline_Returned [OF _ step]
      have p1: "progress name [?call j] (take k (drop (j * k) ?fs)) st st1"
        by (simp add: m batch_at_nat [OF k] del: of_nat_mult)
      from less.prems(2) step m k
      have more: "Suc j * k < length ?fs"
        and rec: "batched_loop E name cmd fl (int (Suc j * k)) st1 = (Raised CommandFailed, st')"
        by (subst (asm) batched_loop.simps;
            simp add: Let_def off del: of_nat_mult of_nat_add split: if_splits)+
      from more less.prems(1) k have "length ?fs - Suc j * k < length ?fs - j * k" by simp
      from less.hyps [OF this more rec] obtain i where
        i: "Suc j \<le> i" "i * k < length ?fs" and
        p2: "progress name (map ?call [Suc j..<Suc i])
               (take (i * k - Suc j * k) (drop (Suc j * k) ?fs)) st1 st'"
        by blast
      from i have calls: "[j..<Suc i] = j # [Suc j..<Suc i]" by (simp add: upt_conv_Cons)
      from i have le: "Suc j * k \<le> i * k" by (simp only: mult_le_mono1)
      have d: "drop (Suc j * k) ?fs = drop k (drop (j * k) ?fs)" by (simp add: add.commute)
      from le have "i * k - j * k = k + (i * k - Suc j * k)" by simp
      then have paths: "take (i * k - j * k) (drop (j * k) ?fs)
          = take k (drop (j * k) ?fs) @ take (i * k - Suc j * k) (drop (Suc j * k) ?fs)"
        by (simp only: d take_add)
      from progress_trans [OF p1 p2] calls paths i show ?thesis
        by (intro exI [of _ i]) simp
    qed
  qed
qed

lemma batched_loop_unbounded:
  assumes "maxBatchSize fl \<le> 0"
  shows "batched_loop E name cmd fl 0 st = ExecuteBatchedFileListPipeline E name cmd fl 0 st"
proof (cases "ExecuteBatchedFileListPipeline E name cmd fl 0 st")
  case (Pair out st1)
  with assms show ?thesis
    by (subst batched_loop.simps) (cases out; simp add: Let_def)
qed

lemma file_loop_Returned:
  "file_loop E name cmd fs st = (Returned u, st') \<Longrightarrow>
   progress name (map (\<lambda>path. (cmd, TextArg path)) fs) fs st st'"
proof (induction fs arbitrary: st)
  case Nil
  then show ?case by (simp add: progress_refl)
next
  case (Cons path fs)
  let ?st1 = "ereport_notice (ProcessingFile name path) st"
  from Cons.prems obtain v st2 where
    c: "execute_command E cmd (TextArg path) ?st1 = (Returned v, st2)"
    by (cases "execute_command E cmd (TextArg path) ?st1";
        cases "fst (execute_command E cmd (TextArg path) ?st1)")
       (auto simp: Let_def ExecuteFileListPipelineForFile_def)
  with Cons.prems obtain w st3 where
    i: "InsertProcessedFile name path st2 = (Returned w, st3)"
    by (cases "InsertProcessedFile name path st2";
        cases "fst (InsertProcessedFile name path st2)")
       (auto simp: Let_def ExecuteFileListPipelineForFile_def)
  from Cons.prems c i have rec: "file_loop E name cmd fs st3 = (Returned u, st')"
    by (simp add: Let_def ExecuteFileListPipelineForFile_def)
  from execute_command_Returned [OF c, of name]
  have p1: "progress name [(cmd, TextArg path)] [] st st2" by (simp add: progress_notice)
  from progress_trans [OF progress_trans [OF p1 InsertProcessedFile_Returned [OF i]]
      Cons.IH [OF rec]]
  show ?case by simp
qed

lemma file_loop_CommandFailed:
  "file_loop E name cmd fs st = (Raised CommandFailed, st') \<Longrightarrow>
   \<exists>i < length fs.
     progress name (map (\<lambda>path. (cmd, TextArg path)) (take (Suc i) fs)) (take i fs) st st'"
proof (induction fs arbitrary: st)
  case Nil
  then show ?case by simp
next
  case (Cons path fs)
  let ?st1 = "ereport_notice (ProcessingFile name path) st"
  show ?case
  proof (cases "execute_command E cmd (TextArg path) ?st1")
    case (Pair out st2)
    show ?thesis
    proof (cases out)
      case (Raised e)
      with Pair Cons.prems
      have "execute_command E cmd (TextArg path) ?st1 = (Raised CommandFailed, st')"
        by (simp add: Let_def ExecuteFileListPipelineForFile_def)
      from execute_command_Raised [OF this, of name]
      have "progress name [(cmd, TextArg path)] [] st st'" by (simp add: progress_notice)
      then show ?thesis by (intro exI [of _ 0]) simp
    next
      case (Returned v)
      with Pair have c: "execute_command E cmd (TextArg path) ?st1 = (Returned v, st2)"
        by simp
      from execute_command_Returned [OF c, of name]
      have p1: "progress name [(cmd, TextArg path)] [] st st2" by (simp add: progress_notice)
      show ?thesis
      proof (cases "InsertProcessedFile name path st2")
        case (Pair out3 st3)
        show ?thesis
        proof (cases out3)
          case (Raised e)
          with Pair c Cons.prems InsertProcessedFile_Raised [of name path st2 e st3]
          show ?thesis by (simp add: Let_def ExecuteFileListPipelineForFile_def)
        next
          case (Returned w)
          with Pair have i: "InsertProcessedFile name path st2 = (Returned w, st3)" by simp
          from Cons.prems c i
          have rec: "file_loop E name cmd fs st3 = (Raised CommandFailed, st')"
            by (simp add: Let_def ExecuteFileListPipelineForFile_def)
          from Cons.IH [OF rec] obtain n where n: "n < length fs" and
            p3: "progress name (map (\<lambda>path. (cmd, TextArg path)) (take (Suc n) fs))
                   (take n fs) st3 st'"
            by blast
          from progress_trans [OF progress_trans [OF p1 InsertProcessedFile_Returned [OF i]] p3]
            n show ?thesis
            by (intro exI [of _ "Suc n"]) simp
        qed
      qed
    qed
  qed
qed

lemma concat_chunks:
  fixes k :: nat
  assumes "0 < k"
  shows "j * k \<le> length xs \<Longrightarrow>
         concat (map (\<lambda>i. take k (drop (i * k) xs)) [j..<(length xs + k - 1) div k])
           = drop (j * k) xs"
proof (induction "length xs - j * k" arbitrary: j rule: less_induct)
  case less
  let ?c = "(length xs + k - 1) div k"
  show ?case
  proof (cases "j * k < length xs")
    case True
    then have "j < ?c" using ceil_div_gt [OF assms] by simp
    then have u: "[j..<?c] = j # [Suc j..<?c]" by (simp add: upt_conv_Cons)
    have d: "drop (Suc j * k) xs = drop k (drop (j * k) xs)" by (simp add: add.commute)
    show ?thesis
    proof (cases "Suc j * k \<le> length xs")
      case le: True
      from True assms have "length xs - Suc j * k < length xs - j * k" by simp
      from less.hyps [OF this le]
      have "concat (map (\<lambda>i. take k (drop (i * k) xs)) [Suc j..<?c]) = drop (Suc j * k) xs" .
      then have "concat (map (\<lambda>i. take k (drop (i * k) xs)) (j # [Suc j..<?c]))
          = take k (drop (j * k) xs) @ drop k (drop (j * k) xs)"
        by (simp only: d list.map concat.simps)
      then show ?thesis by (simp only: u append_take_drop_id)
    next
      case False
      then have "?c = Suc j" using ceil_div_last [OF assms True] by simp
      with False show ?thesis by simp
    qed
  next
    case False
    with less.prems have e: "j * k = length xs" by simp
    then have "length xs + k - 1 < Suc j * k" using assms by simp
    with assms have "?c < Suc j" by (simp only: div_less_iff_less_mult)
    then show ?thesis using e by simp
  qed
qed

lemma take_drop_nth:
  "take k (drop a xs) = map (\<lambda>j. xs ! j) [a..<min (a + k) (length xs)]"
proof (rule nth_equalityI)
  show "length (take k (drop a xs)) = length (map (\<lambda>j. xs ! j) [a..<min (a + k) (length xs)])"
    by auto
next
  fix i
  assume "i < length (take k (drop a xs))"
  then have i: "i < k" "a + i < length xs" by auto
  then have "i < min (a + k) (length xs) - a" by auto
  from nth_map_upt [OF this, of "\<lambda>j. xs ! j"] i
  show "take k (drop a xs) ! i = map (\<lambda>j. xs ! j) [a..<min (a + k) (length xs)] ! i"
    by simp
qed

lemma insert_datums_returns:
  "distinct cells \<Longrightarrow> \<forall>p \<in> set cells. (name, p) \<notin> set (processed_files st) \<Longrightarrow>
   returned (fst (insert_datums name maxSize cells fileIndex st))"
proof (induction cells arbitrary: fileIndex st)
  case Nil
  then show ?case by simp
next
  case (Cons path cells)
  let ?st1 = "st\<lparr>processed_files := processed_files st @ [(name, path)]\<rparr>"
  from Cons.prems have ins: "InsertProcessedFile name path st = (Returned (), ?st1)"
    by (simp add: InsertProcessedFile_eq)
  from Cons.prems have "distinct cells"
    and "\<forall>p \<in> set cells. (name, p) \<notin> set (processed_files ?st1)"
    by auto
  from Cons.IH [OF this] ins show ?case by (simp add: Let_def)
qed

lemma execute_command_returns:
  "runCommand E cmd arg (world st) \<noteq> None \<Longrightarrow> returned (fst (execute_command E cmd arg st))"
  by (auto simp: execute_command_def Let_def)

lemma execute_command_log:
  "processed_files (snd (execute_command E cmd arg st)) = processed_files st"
  by (simp add: execute_command_def Let_def split: option.splits)

lemma ExecuteBatchedFileListPipeline_returns:
  assumes ok: "\<forall>arg w. runCommand E cmd arg w \<noteq> None"
    and "distinct (drop (nat offset) (files fl))"
    and "\<forall>p \<in> set (drop (nat offset) (files fl)). (name, p) \<notin> set (processed_files st)"
  shows "returned (fst (ExecuteBatchedFileListPipeline E name cmd fl offset st))"
proof -
  let ?st1 = "ereport_notice (ProcessingFiles name
      (if maxBatchSize fl > 0 \<and> int (length (files fl)) - offset > maxBatchSize fl
       then maxBatchSize fl else int (length (files fl)) - offset)) st"
  let ?arg = "TextArrayArg (take (nat (if maxBatchSize fl > 0
        \<and> int (length (files fl)) - offset > maxBatchSize fl
       then maxBatchSize fl else int (length (files fl)) - offset))
       (fill_datums (maxBatchSize fl) (drop (nat offset) (files fl)) 0))"
  obtain out st2 where c: "execute_command E cmd ?arg ?st1 = (out, st2)"
    by (cases "execute_command E cmd ?arg ?st1")
  from ok execute_command_returns [of E cmd ?arg ?st1] c obtain v where out: "out = Returned v"
    by (cases out) auto
  from execute_command_log [of E cmd ?arg ?st1] c
  have "processed_files st2 = processed_files st" by (simp add: ereport_notice_def)
  with assms(3)
  have "\<forall>p \<in> set (drop (nat offset) (files fl)). (name, p) \<notin> set (processed_files st2)"
    by simp
  from insert_datums_returns [OF assms(2) this] c out show ?thesis
    by (simp add: ExecuteBatchedFileListPipeline_def Let_def
        ExecuteFileListPipelineForFileArray_def)
qed

lemma batched_loop_returns:
  assumes ok: "\<forall>arg w. runCommand E cmd arg w \<noteq> None"
    and m: "maxBatchSize fl = int k" and k: "0 < k"
    and dist: "distinct (files fl)"
  shows "j * k < length (files fl) \<Longrightarrow>
         \<forall>p \<in> set (drop (j * k) (files fl)). (name, p) \<notin> set (processed_files st) \<Longrightarrow>
         returned (fst (batched_loop E name cmd fl (int (j * k)) st))"
proof (induction "length (files fl) - j * k" arbitrary: j st rule: less_induct)
  case less
  let ?fs = "files fl"
  have off: "int (j * k) + int k = int (Suc j * k)" by simp
  have nj: "nat (int (j * k)) = j * k" by (rule nat_int)
  from dist have dd: "distinct (drop (nat (int (j * k))) ?fs)" by simp
  from less.prems(2)
  have fresh: "\<forall>p \<in> set (drop (nat (int (j * k))) ?fs). (name, p) \<notin> set (processed_files st)"
    by (simp only: nj)
  obtain out st1 where
    step: "ExecuteBatchedFileListPipeline E name cmd fl (int (j * k)) st = (out, st1)"
    by (cases "ExecuteBatchedFileListPipeline E name cmd fl (int (j * k)) st")
  with ExecuteBatchedFileListPipeline_returns [OF ok dd fresh] obtain v where
    out: "out = Returned v"
    by (cases out) auto
  show ?case
  proof (cases "Suc j * k < length ?fs")
    case False
    with step out m k show ?thesis
      by (subst batched_loop.simps) (simp add: Let_def off del: of_nat_mult of_nat_add)
  next
    case True
    from ExecuteBatchedFileListPipeline_Returned [OF _ step [unfolded out]]
    have log: "processed_files st1
        = processed_files st @ map (Pair name) (take k (drop (j * k) ?fs))"
      by (simp add: progress_def m batch_at_nat [OF k] del: of_nat_mult)
    have d: "drop (Suc j * k) ?fs = drop k (drop (j * k) ?fs)" by (simp add: add.commute)
    from dist have "distinct (take k (drop (j * k) ?fs) @ drop k (drop (j * k) ?fs))"
      by (simp only: append_take_drop_id distinct_drop)
    then have disj: "set (take k (drop (j * k) ?fs)) \<inter> set (drop (Suc j * k) ?fs) = {}"
      by (simp only: d distinct_append)
    have sub: "set (drop (Suc j * k) ?fs) \<subseteq> set (drop (j * k) ?fs)"
      unfolding d by (rule set_drop_subset)
    from less.prems(2) sub disj
    have fresh': "\<forall>p \<in> set (drop (Suc j * k) ?fs). (name, p) \<notin> set (processed_files st1)"
      unfolding log by auto
    from True less.prems(1) k have "length ?fs - Suc j * k < length ?fs - j * k" by simp
    from less.hyps [OF this True fresh'] True step out m k show ?thesis
      by (subst batched_loop.simps) (simp add: Let_def off del: of_nat_mult of_nat_add)
  qed
qed

lemma file_loop_returns:
  assumes ok: "\<forall>arg w. runCommand E cmd arg w \<noteq> None"
  shows "distinct fs \<Longrightarrow> \<forall>p \<in> set fs. (name, p) \<notin> set (processed_files st) \<Longrightarrow>
         returned (fst (file_loop E name cmd fs st))"
proof (induction fs arbitrary: st)
  case Nil
  then show ?case by simp
next
  case (Cons path fs)
  let ?st1 = "ereport_notice (ProcessingFile name path) st"
  obtain out st2 where c: "execute_command E cmd (TextArg path) ?st1 = (out, st2)"
    by (cases "execute_command E cmd (TextArg path) ?st1")
  from ok execute_command_returns [of E cmd "TextArg path" ?st1] c obtain v where
    out: "out = Returned v"
    by (cases out) auto
  from execute_command_log [of E cmd "TextArg path" ?st1] c
  have log2: "processed_files st2 = processed_files st" by (simp add: ereport_notice_def)
  let ?st3 = "st2\<lparr>processed_files := processed_files st2 @ [(name, path)]\<rparr>"
  from Cons.prems log2 have ins: "InsertProcessedFile name path st2 = (Returned (), ?st3)"
    by (simp add: InsertProcessedFile_eq)
  from Cons.prems log2 have "distinct fs"
    and "\<forall>p \<in> set fs. (name, p) \<notin> set (processed_files ?st3)"
    by auto
  from Cons.IH [OF this] c out ins show ?case
    by (simp add: Let_def ExecuteFileListPipelineForFile_def)
qed

lemma delta_fresh: "\<forall>p \<in> set (delta E name row st). (name, p) \<notin> set (processed_files st)"
  by (simp add: delta_def)

lemma ExecuteFileListPipeline_returns:
  assumes row: "file_list_pipelines st name = Some row"
    and dist: "distinct (delta E name row st)"
    and ok: "\<forall>arg w. runCommand E cmd arg w \<noteq> None"
  shows "returned (fst (ExecuteFileListPipeline E name cmd st))"
proof -
  let ?d = "delta E name row st"
  let ?m = "case fl_max_batch_size row of None \<Rightarrow> - 1 | Some v \<Rightarrow> v"
  let ?fl = "\<lparr>files = ?d, batched = fl_batched row, maxBatchSize = ?m\<rparr>"
  show ?thesis
  proof (cases "?d = []")
    case True
    then show ?thesis
      by (simp add: ExecuteFileListPipeline_def GetUnprocessedFilesForPipeline_eq [OF row])
  next
    case nonempty: False
    show ?thesis
    proof (cases "fl_batched row")
      case False
      with nonempty file_loop_returns [OF ok dist delta_fresh] show ?thesis
        by (simp add: ExecuteFileListPipeline_def GetUnprocessedFilesForPipeline_eq [OF row])
    next
      case True
      have "returned (fst (batched_loop E name cmd ?fl 0 st))"
      proof (cases "0 < ?m")
        case pos: True
        define k where "k = nat ?m"
        with pos have k: "0 < k" and mb: "maxBatchSize ?fl = int k" by simp_all
        from dist have df: "distinct (files ?fl)" by simp
        from nonempty have "0 * k < length (files ?fl)" by simp
        from batched_loop_returns [OF ok mb k df this, of name st] delta_fresh [of E name row st]
        show ?thesis by simp
      next
        case False
        then have mb: "maxBatchSize ?fl \<le> 0" by simp
        from dist have dd: "distinct (drop (nat 0) (files ?fl))" by simp
        have "\<forall>p \<in> set (drop (nat 0) (files ?fl)). (name, p) \<notin> set (processed_files st)"
          using delta_fresh [of E name row st] by simp
        from ExecuteBatchedFileListPipeline_returns [OF ok dd this]
        show ?thesis by (simp only: batched_loop_unbounded [OF mb])
      qed
      with nonempty True show ?thesis
        by (simp add: ExecuteFileListPipeline_def GetUnprocessedFilesForPipeline_eq [OF row])
    qed
  qed
qed

text \<open>The runs of the example store.\<close>

lemma csv_delta: "delta csv_env ''files'' csv_row csv_store = [''a.csv'', ''b.csv'', ''c.csv'']"
  by (simp add: delta_def csv_env_def csv_row_def csv_store_def)

lemma csv_file_list:
  "GetUnprocessedFilesForPipeline csv_env ''files'' csv_store =
     (Returned \<lparr>files = [''a.csv'', ''b.csv'', ''c.csv''], batched = True, maxBatchSize = 2\<rparr>,
      csv_store)"
proof -
  have r: "file_list_pipelines csv_store ''files'' = Some csv_row"
    by (simp add: csv_store_def)
  show ?thesis
    by (simp add: GetUnprocessedFilesForPipeline_eq [OF r] csv_delta) (simp add: csv_row_def)
qed

lemmas run_simps = batched_loop.simps ExecuteBatchedFileListPipeline_def
  ExecuteFileListPipelineForFileArray_def ExecuteFileListPipelineForFile_def
  execute_command_def InsertProcessedFile_eq ereport_notice_def Let_def

lemma csv_run_load:
  "fst (ExecuteFileListPipeline csv_env ''files'' ''load'' csv_store) = Returned ()
   \<and> invocations (snd (ExecuteFileListPipeline csv_env ''files'' ''load'' csv_store))
       = [(''load'', TextArrayArg [''a.csv'', ''b.csv'']), (''load'', TextArrayArg [''c.csv''])]
   \<and> processed_files (snd (ExecuteFileListPipeline csv_env ''files'' ''load'' csv_store))
       = [(''files'', ''a.csv''), (''files'', ''b.csv''), (''files'', ''c.csv'')]"
  by (simp add: ExecuteFileListPipeline_def csv_file_list)
     (simp add: run_simps csv_env_def csv_store_def)

lemma csv_run_load_strict:
  "fst (ExecuteFileListPipeline csv_env ''files'' ''load_strict'' csv_store) = Raised CommandFailed
   \<and> invocations (snd (ExecuteFileListPipeline csv_env ''files'' ''load_strict'' csv_store))
       = [(''load_strict'', TextArrayArg [''a.csv'', ''b.csv'']),
          (''load_strict'', TextArrayArg [''c.csv''])]
   \<and> processed_files (snd (ExecuteFileListPipeline csv_env ''files'' ''load_strict'' csv_store))
       = [(''files'', ''a.csv''), (''files'', ''b.csv'')]"
  by (simp add: ExecuteFileListPipeline_def csv_file_list)
     (simp add: run_simps csv_env_def csv_store_def)

lemma csv_run_load_unbounded:
  "fst (ExecuteFileListPipeline csv_env ''files'' ''load''
          (csv_store\<lparr>file_list_pipelines := [''files'' \<mapsto> csv_row\<lparr>fl_max_batch_size := None\<rparr>]\<rparr>))
     = Returned ()
   \<and> invocations (snd (ExecuteFileListPipeline csv_env ''files'' ''load''
          (csv_store\<lparr>file_list_pipelines := [''files'' \<mapsto> csv_row\<lparr>fl_max_batch_size := None\<rparr>]\<rparr>)))
     = [(''load'', TextArrayArg [''a.csv'', ''b.csv'', ''c.csv''])]"
proof -
  let ?row = "csv_row\<lparr>fl_max_batch_size := None\<rparr>"
  let ?st = "csv_store\<lparr>file_list_pipelines := [''files'' \<mapsto> ?row]\<rparr>"
  have r: "file_list_pipelines ?st ''files'' = Some ?row" by simp
  have d: "delta csv_env ''files'' ?row ?st = [''a.csv'', ''b.csv'', ''c.csv'']"
    by (simp add: delta_def csv_env_def csv_row_def csv_store_def)
  have g: "GetUnprocessedFilesForPipeline csv_env ''files'' ?st =
     (Returned \<lparr>files = [''a.csv'', ''b.csv'', ''c.csv''], batched = True, maxBatchSize = - 1\<rparr>,
      ?st)"
    by (simp add: GetUnprocessedFilesForPipeline_eq [OF r] d) (simp add: csv_row_def)
  show ?thesis
    by (simp add: ExecuteFileListPipeline_def g)
       (simp add: run_simps csv_env_def csv_store_def)
qed

lemma csv_run_load_strict_items:
  "fst (ExecuteFileListPipeline csv_env ''files'' ''load_strict''
          (csv_store\<lparr>file_list_pipelines := [''files'' \<mapsto> csv_row\<lparr>fl_batched := False\<rparr>]\<rparr>))
     = Raised CommandFailed
   \<and> invocations (snd (ExecuteFileListPipeline csv_env ''files'' ''load_strict''
          (csv_store\<lparr>file_list_pipelines := [''files'' \<mapsto> csv_row\<lparr>fl_batched := False\<rparr>]\<rparr>)))
     = [(''load_strict'', TextArg ''a.csv''), (''load_strict'', TextArg ''b.csv''),
        (''load_strict'', TextArg ''c.csv'')]
   \<and> processed_files (snd (ExecuteFileListPipeline csv_env ''files'' ''load_strict''
          (csv_store\<lparr>file_list_pipelines := [''files'' \<mapsto> csv_row\<lparr>fl_batched := False\<rparr>]\<rparr>)))
     = [(''files'', ''a.csv''), (''files'', ''b.csv'')]"
proof -
  let ?row = "csv_row\<lparr>fl_batched := False\<rparr>"
  let ?st = "csv_store\<lparr>file_list_pipelines := [''files'' \<mapsto> ?row]\<rparr>"
  have r: "file_list_pipelines ?st ''files'' = Some ?row" by simp
  have d: "delta csv_env ''files'' ?row ?st = [''a.csv'', ''b.csv'', ''c.csv'']"
    by (simp add: delta_def csv_env_def csv_row_def csv_store_def)
  have g: "GetUnprocessedFilesForPipeline csv_env ''files'' ?st =
     (Returned \<lparr>files = [''a.csv'', ''b.csv'', ''c.csv''], batched = False, maxBatchSize = 2\<rparr>,
      ?st)"
    by (simp add: GetUnprocessedFilesForPipeline_eq [OF r] d) (simp add: csv_row_def)
  show ?thesis
    by (simp add: ExecuteFileListPipeline_def g)
       (simp add: run_simps csv_env_def csv_store_def)
qed

lemma csv_run_load_strict_unbounded:
  "fst (ExecuteFileListPipeline csv_env ''files'' ''load_strict''
          (csv_store\<lparr>file_list_pipelines := [''files'' \<mapsto> csv_row\<lparr>fl_max_batch_size := None\<rparr>]\<rparr>))
     = Raised CommandFailed
   \<and> invocations (snd (ExecuteFileListPipeline csv_env ''files'' ''load_strict''
          (csv_store\<lparr>file_list_pipelines := [''files'' \<mapsto> csv_row\<lparr>fl_max_batch_size := None\<rparr>]\<rparr>)))
     = [(''load_strict'', TextArrayArg [''a.csv'', ''b.csv'', ''c.csv''])]
   \<and> processed_files (snd (ExecuteFileListPipeline csv_env ''files'' ''load_strict''
          (csv_store\<lparr>file_list_pipelines := [''files'' \<mapsto> csv_row\<lparr>fl_max_batch_size := None\<rparr>]\<rparr>)))
     = []"
proof -
  let ?row = "csv_row\<lparr>fl_max_batch_size := None\<rparr>"
  let ?st = "csv_store\<lparr>file_list_pipelines := [''files'' \<mapsto> ?row]\<rparr>"
  have r: "file_list_pipelines ?st ''files'' = Some ?row" by simp
  have d: "delta csv_env ''files'' ?row ?st = [''a.csv'', ''b.csv'', ''c.csv'']"
    by (simp add: delta_def csv_env_def csv_row_def csv_store_def)
  have g: "GetUnprocessedFilesForPipeline csv_env ''files'' ?st =
     (Returned \<lparr>files = [''a.csv'', ''b.csv'', ''c.csv''], batched = True, maxBatchSize = - 1\<rparr>,
      ?st)"
    by (simp add: GetUnprocessedFilesForPipeline_eq [OF r] d) (simp add: csv_row_def)
  show ?thesis
    by (simp add: ExecuteFileListPipeline_def g)
       (simp add: run_simps csv_env_def csv_store_def)
qed

lemma in_transaction_Raised:
  "f st = (Raised e, st') \<Longrightarrow>
   in_transaction f st = (Raised e, st\<lparr>notices := notices st', invocations := invocations st'\<rparr>)"
  by (simp add: in_transaction_def)

subsection \<open>The delta of a file list pipeline\<close>

text \<open>
  C1. For a pipeline with a row in \<^verbatim>\<open>incremental.file_list_pipelines\<close>,
  \<^verbatim>\<open>GetUnprocessedFilesForPipeline\<close> returns, and the files it returns are, as a set, the
  output of the pipeline's list function on its file pattern minus the paths logged in
  \<^verbatim>\<open>incremental.processed_files\<close> under the pipeline's name: each returned path is listed and
  not logged, and each listed path that is not logged is returned. The store is left as it
  was.
\<close>

theorem GetUnprocessedFilesForPipeline_set_difference:
  assumes "file_list_pipelines st name = Some row"
  shows "\<exists>fileList. GetUnprocessedFilesForPipeline E name st = (Returned fileList, st)
           \<and> set (files fileList) =
               set (listFunctions E (fl_list_function row) (fl_file_pattern row))
               - {path. (name, path) \<in> set (processed_files st)}"
  using GetUnprocessedFilesForPipeline_eq [OF assms, of E]
  by (auto simp: delta_def)

theorem GetUnprocessedFilesForPipeline_set_difference_witness:
  "file_list_pipelines
     (csv_store\<lparr>processed_files := [(''files'', ''b.csv''), (''other'', ''a.csv'')]\<rparr>) ''files''
     = Some csv_row
   \<and> (\<exists>fileList.
        GetUnprocessedFilesForPipeline csv_env ''files''
          (csv_store\<lparr>processed_files := [(''files'', ''b.csv''), (''other'', ''a.csv'')]\<rparr>)
          = (Returned fileList,
             csv_store\<lparr>processed_files := [(''files'', ''b.csv''), (''other'', ''a.csv'')]\<rparr>)
        \<and> set (files fileList) = {''a.csv'', ''c.csv''})"
proof -
  let ?st = "csv_store\<lparr>processed_files := [(''files'', ''b.csv''), (''other'', ''a.csv'')]\<rparr>"
  have h: "file_list_pipelines ?st ''files'' = Some csv_row"
    by (simp add: csv_store_def)
  have l: "set (listFunctions csv_env (fl_list_function csv_row) (fl_file_pattern csv_row))
            - {path. (''files'', path) \<in> set (processed_files ?st)} = {''a.csv'', ''c.csv''}"
    by (auto simp: csv_env_def csv_row_def csv_store_def)
  show ?thesis
    using h GetUnprocessedFilesForPipeline_set_difference [OF h, of csv_env] l by simp
qed

subsection \<open>Batches\<close>

text \<open>
  C2. Take a batched pipeline whose delta \<open>d\<close> is not empty, and an execution that returns.
  With a batch size \<open>k > 0\<close>, the execution hands the user command to SPI once per batch,
  \<open>ceil(length d / k)\<close> times in all, the call number \<open>i\<close> (from 0) with the array
  \<open>take k (drop (i * k) d)\<close>, which holds the paths of \<open>d\<close> at the offsets from \<open>i * k\<close> up to
  \<open>min ((i + 1) * k) (length d) - 1\<close>; the arrays put one after the other are \<open>d\<close>. With a
  batch size that is NULL or not positive, there is one call, with the whole of \<open>d\<close>.
  (Executions that return exist: \<open>ExecuteFileListPipeline_returns\<close> gives one whenever the
  command does not raise and no path is listed twice.)
\<close>

theorem batching_complete:
  assumes row: "file_list_pipelines st name = Some row"
    and batched: "fl_batched row"
    and nonempty: "delta E name row st \<noteq> []"
    and run: "ExecuteFileListPipeline E name cmd st = (Returned (), st')"
  shows "(0 < k \<and> fl_max_batch_size row = Some (int k) \<longrightarrow>
            invocations st' = invocations st @
              map (\<lambda>i. (cmd, TextArrayArg (take k (drop (i * k) (delta E name row st)))))
                [0..<(length (delta E name row st) + k - 1) div k]
          \<and> length (invocations st') =
              length (invocations st) + (length (delta E name row st) + k - 1) div k
          \<and> (\<forall>i. take k (drop (i * k) (delta E name row st)) =
                map (\<lambda>j. delta E name row st ! j)
                  [i * k..<min ((i + 1) * k) (length (delta E name row st))])
          \<and> concat (map (\<lambda>i. take k (drop (i * k) (delta E name row st)))
                [0..<(length (delta E name row st) + k - 1) div k])
              = delta E name row st)
       \<and> (fl_max_batch_size row = None \<or> (\<exists>m \<le> 0. fl_max_batch_size row = Some m) \<longrightarrow>
            invocations st' = invocations st @ [(cmd, TextArrayArg (delta E name row st))])"
proof -
  let ?d = "delta E name row st"
  let ?m = "case fl_max_batch_size row of None \<Rightarrow> - 1 | Some v \<Rightarrow> v"
  let ?fl = "\<lparr>files = ?d, batched = fl_batched row, maxBatchSize = ?m\<rparr>"
  from run nonempty batched
  have loop: "batched_loop E name cmd ?fl 0 st = (Returned (), st')"
    by (simp add: ExecuteFileListPipeline_def GetUnprocessedFilesForPipeline_eq [OF row])
  have bounded: "invocations st' = invocations st @
              map (\<lambda>i. (cmd, TextArrayArg (take k (drop (i * k) ?d))))
                [0..<(length ?d + k - 1) div k]"
    if k: "0 < k" and m: "fl_max_batch_size row = Some (int k)"
  proof -
    from m have mb: "maxBatchSize ?fl = int k" by simp
    from nonempty have "0 * k < length (files ?fl)" by simp
    from batched_loop_Returned [OF mb k this, of E name cmd st "()" st'] loop
    show ?thesis by (simp add: progress_def)
  qed
  have unbounded: "invocations st' = invocations st @ [(cmd, TextArrayArg ?d)]"
    if m: "fl_max_batch_size row = None \<or> (\<exists>m \<le> 0. fl_max_batch_size row = Some m)"
  proof -
    from m have mb: "maxBatchSize ?fl \<le> 0" by auto
    from loop have "ExecuteBatchedFileListPipeline E name cmd ?fl 0 st = (Returned (), st')"
      by (simp only: batched_loop_unbounded [OF mb])
    from ExecuteBatchedFileListPipeline_Returned [OF _ this] mb
    show ?thesis by (simp add: progress_def batch_at_def)
  qed
  have cover: "take k (drop (i * k) ?d) = map (\<lambda>j. ?d ! j) [i * k..<min ((i + 1) * k) (length ?d)]"
    for i
    using take_drop_nth [of k "i * k" ?d] by (simp add: add.commute)
  have cat: "concat (map (\<lambda>i. take k (drop (i * k) ?d)) [0..<(length ?d + k - 1) div k]) = ?d"
    if "0 < k"
    using concat_chunks [OF that, of 0 ?d] by simp
  show ?thesis
  proof (intro conjI impI)
    assume a: "0 < k \<and> fl_max_batch_size row = Some (int k)"
    then show "invocations st' = invocations st @
              map (\<lambda>i. (cmd, TextArrayArg (take k (drop (i * k) ?d))))
                [0..<(length ?d + k - 1) div k]"
      using bounded by blast
    then show "length (invocations st') = length (invocations st) + (length ?d + k - 1) div k"
      by simp
    show "\<forall>i. take k (drop (i * k) ?d) =
                map (\<lambda>j. ?d ! j) [i * k..<min ((i + 1) * k) (length ?d)]"
      using cover by blast
    show "concat (map (\<lambda>i. take k (drop (i * k) ?d)) [0..<(length ?d + k - 1) div k]) = ?d"
      using a cat by blast
  next
    assume "fl_max_batch_size row = None \<or> (\<exists>m \<le> 0. fl_max_batch_size row = Some m)"
    then show "invocations st' = invocations st @ [(cmd, TextArrayArg ?d)]"
      using unbounded by blast
  qed
qed

theorem batching_complete_witness:
  "file_list_pipelines csv_store ''files'' = Some csv_row
   \<and> fl_batched csv_row \<and> fl_max_batch_size csv_row = Some (int 2)
   \<and> delta csv_env ''files'' csv_row csv_store = [''a.csv'', ''b.csv'', ''c.csv'']
   \<and> fst (ExecuteFileListPipeline csv_env ''files'' ''load'' csv_store) = Returned ()
   \<and> invocations (snd (ExecuteFileListPipeline csv_env ''files'' ''load'' csv_store))
       = [(''load'', TextArrayArg [''a.csv'', ''b.csv'']), (''load'', TextArrayArg [''c.csv''])]
   \<and> length (invocations (snd (ExecuteFileListPipeline csv_env ''files'' ''load'' csv_store)))
       = (3 + 2 - 1) div 2
   \<and> concat [[''a.csv'', ''b.csv''], [''c.csv'']] = [''a.csv'', ''b.csv'', ''c.csv'']
   \<and> fl_max_batch_size (csv_row\<lparr>fl_max_batch_size := None\<rparr>) = None
   \<and> invocations (snd (ExecuteFileListPipeline csv_env ''files'' ''load''
          (csv_store\<lparr>file_list_pipelines := [''files'' \<mapsto> csv_row\<lparr>fl_max_batch_size := None\<rparr>]\<rparr>)))
       = [(''load'', TextArrayArg [''a.csv'', ''b.csv'', ''c.csv''])]"
proof -
  let ?run = "ExecuteFileListPipeline csv_env ''files'' ''load'' csv_store"
  let ?row = "csv_row\<lparr>fl_max_batch_size := None\<rparr>"
  let ?st = "csv_store\<lparr>file_list_pipelines := [''files'' \<mapsto> ?row]\<rparr>"
  let ?run' = "ExecuteFileListPipeline csv_env ''files'' ''load'' ?st"
  have row: "file_list_pipelines csv_store ''files'' = Some csv_row"
    by (simp add: csv_store_def)
  have b: "fl_batched csv_row" and m: "0 < (2::nat) \<and> fl_max_batch_size csv_row = Some (int 2)"
    by (simp_all add: csv_row_def)
  have ne: "delta csv_env ''files'' csv_row csv_store \<noteq> []" by (simp add: csv_delta)
  have run: "?run = (Returned (), snd ?run)"
    using csv_run_load by (simp add: prod_eq_iff)
  have i: "invocations csv_store = []" by (simp add: csv_store_def)
  have c: "(3 + 2 - 1) div 2 = Suc (Suc 0)" by simp
  from batching_complete [OF row b ne run, where k = 2] m
  have 1: "invocations (snd ?run)
       = [(''load'', TextArrayArg [''a.csv'', ''b.csv'']), (''load'', TextArrayArg [''c.csv''])]
     \<and> length (invocations (snd ?run)) = (3 + 2 - 1) div 2"
    by (simp add: csv_delta i c upt_rec [of 0] upt_rec [of "Suc 0"])
  have row': "file_list_pipelines ?st ''files'' = Some ?row" by simp
  have b': "fl_batched ?row" by (simp add: csv_row_def)
  have d': "delta csv_env ''files'' ?row ?st = [''a.csv'', ''b.csv'', ''c.csv'']"
    by (simp add: delta_def csv_env_def csv_row_def csv_store_def)
  then have ne': "delta csv_env ''files'' ?row ?st \<noteq> []" by simp
  have run': "?run' = (Returned (), snd ?run')"
    using csv_run_load_unbounded by (simp add: prod_eq_iff)
  have i': "invocations ?st = []" by (simp add: csv_store_def)
  from batching_complete [OF row' b' ne' run', where k = 1]
  have 2: "invocations (snd ?run') = [(''load'', TextArrayArg [''a.csv'', ''b.csv'', ''c.csv''])]"
    by (simp add: d' i')
  have f: "fst ?run = Returned ()" using csv_run_load by simp
  from 1 2 f row b m show ?thesis by (simp add: csv_delta)
qed

subsection \<open>Failure of a user command\<close>

text \<open>
  C3, as claimed: when the command of unit \<open>i\<close> fails, the items of the units before it are
  in the log, and a retried execution's delta is the items from unit \<open>i\<close> on. It is not:
  all units run in one transaction, which the error aborts. Here the command fails on
  the second batch, \<open>[c.csv]\<close>; after the abort the log has neither \<open>a.csv\<close> nor \<open>b.csv\<close>
  of the first batch, and \<^verbatim>\<open>GetUnprocessedFilesForPipeline\<close> returns the three paths again,
  not \<open>[c.csv]\<close>.
\<close>

theorem failure_aborts_earlier_units_counterexample:
  "fst (in_transaction (ExecuteFileListPipeline csv_env ''files'' ''load_strict'') csv_store)
     = Raised CommandFailed
   \<and> invocations (snd (in_transaction (ExecuteFileListPipeline csv_env ''files'' ''load_strict'')
        csv_store))
     = [(''load_strict'', TextArrayArg [''a.csv'', ''b.csv'']),
        (''load_strict'', TextArrayArg [''c.csv''])]
   \<and> processed_files (snd (in_transaction (ExecuteFileListPipeline csv_env ''files'' ''load_strict'')
        csv_store)) = []
   \<and> fst (GetUnprocessedFilesForPipeline csv_env ''files''
        (snd (in_transaction (ExecuteFileListPipeline csv_env ''files'' ''load_strict'') csv_store)))
     = Returned \<lparr>files = [''a.csv'', ''b.csv'', ''c.csv''], batched = True, maxBatchSize = 2\<rparr>
   \<and> drop (1 * 2) [''a.csv'', ''b.csv'', ''c.csv''] = [''c.csv'']"
proof -
  let ?run = "ExecuteFileListPipeline csv_env ''files'' ''load_strict'' csv_store"
  let ?st = "csv_store\<lparr>notices := notices (snd ?run), invocations := invocations (snd ?run)\<rparr>"
  have fail: "?run = (Raised CommandFailed, snd ?run)"
    using csv_run_load_strict by (simp add: prod_eq_iff)
  have t: "in_transaction (ExecuteFileListPipeline csv_env ''files'' ''load_strict'') csv_store
        = (Raised CommandFailed, ?st)"
    using fail
    by (rule in_transaction_Raised
        [of "ExecuteFileListPipeline csv_env ''files'' ''load_strict''" csv_store])
  have r: "file_list_pipelines ?st ''files'' = Some csv_row" by (simp add: csv_store_def)
  have d: "delta csv_env ''files'' csv_row ?st = [''a.csv'', ''b.csv'', ''c.csv'']"
    by (simp add: delta_def csv_env_def csv_row_def csv_store_def)
  have g: "fst (GetUnprocessedFilesForPipeline csv_env ''files'' ?st)
      = Returned \<lparr>files = [''a.csv'', ''b.csv'', ''c.csv''], batched = True, maxBatchSize = 2\<rparr>"
    by (simp add: GetUnprocessedFilesForPipeline_eq [OF r] d) (simp add: csv_row_def)
  have p: "processed_files ?st = []" by (simp add: csv_store_def)
  have i: "invocations ?st = [(''load_strict'', TextArrayArg [''a.csv'', ''b.csv'']),
        (''load_strict'', TextArrayArg [''c.csv''])]"
    using csv_run_load_strict by simp
  show ?thesis unfolding t fst_conv snd_conv using g p i by simp
qed

text \<open>
  C3, amended. Take an execution of a file list pipeline with delta \<open>d\<close> that leaves with
  the error of a user command, the failing invocation being number \<open>i\<close> (from 0) of this
  execution, and let \<open>u\<close> be the number of paths per invocation (\<open>unit_size\<close>). When the
  error is raised, the execution has appended to the log, inside its transaction, the
  rows of the paths of the units \<open>0 .. i - 1\<close>, that is of \<open>take (i * u) d\<close>, and no other
  row. The error aborts the transaction: afterwards the log is as it was before the
  execution, and \<^verbatim>\<open>GetUnprocessedFilesForPipeline\<close>, as a retried execution calls it, returns
  the whole of \<open>d\<close> again.
\<close>

theorem failure_aborts_all_units:
  assumes row: "file_list_pipelines st name = Some row"
    and fail: "ExecuteFileListPipeline E name cmd st = (Raised CommandFailed, st')"
    and nth: "length (invocations st') = length (invocations st) + Suc i"
  shows "processed_files st' = processed_files st @ map (Pair name)
           (take (i * unit_size row (length (delta E name row st))) (delta E name row st))
       \<and> in_transaction (ExecuteFileListPipeline E name cmd) st =
           (Raised CommandFailed,
            st\<lparr>notices := notices st', invocations := invocations st'\<rparr>)
       \<and> processed_files (snd (in_transaction (ExecuteFileListPipeline E name cmd) st))
           = processed_files st
       \<and> GetUnprocessedFilesForPipeline E name
             (snd (in_transaction (ExecuteFileListPipeline E name cmd) st)) =
           (Returned \<lparr>files = delta E name row st, batched = fl_batched row,
                      maxBatchSize = (case fl_max_batch_size row of None \<Rightarrow> - 1 | Some v \<Rightarrow> v)\<rparr>,
            snd (in_transaction (ExecuteFileListPipeline E name cmd) st))"
proof -
  let ?d = "delta E name row st"
  let ?m = "case fl_max_batch_size row of None \<Rightarrow> - 1 | Some v \<Rightarrow> v"
  let ?fl = "\<lparr>files = ?d, batched = fl_batched row, maxBatchSize = ?m\<rparr>"
  let ?t = "i * unit_size row (length ?d)"
  from fail have nonempty: "?d \<noteq> []"
    by (auto simp: ExecuteFileListPipeline_def GetUnprocessedFilesForPipeline_eq [OF row]
        split: if_splits)
  have "\<exists>calls. length calls = Suc i \<and> progress name calls (take ?t ?d) st st'"
  proof (cases "fl_batched row")
    case False
    with fail nonempty have "file_loop E name cmd ?d st = (Raised CommandFailed, st')"
      by (simp add: ExecuteFileListPipeline_def GetUnprocessedFilesForPipeline_eq [OF row])
    from file_loop_CommandFailed [OF this] obtain n where n: "n < length ?d" and
      p: "progress name (map (\<lambda>path. (cmd, TextArg path)) (take (Suc n) ?d)) (take n ?d) st st'"
      by blast
    from p nth n have "n = i" by (auto simp: progress_def min_def split: if_splits)
    with p n False show ?thesis
      by (intro exI [of _ "map (\<lambda>path. (cmd, TextArg path)) (take (Suc i) ?d)"])
         (simp add: unit_size_def min_def)
  next
    case True
    with fail nonempty have loop: "batched_loop E name cmd ?fl 0 st = (Raised CommandFailed, st')"
      by (simp add: ExecuteFileListPipeline_def GetUnprocessedFilesForPipeline_eq [OF row])
    show ?thesis
    proof (cases "0 < ?m")
      case pos: True
      define k where "k = nat ?m"
      with pos have k: "0 < k" and mb: "maxBatchSize ?fl = int k" by simp_all
      from pos k_def True have u: "unit_size row (length ?d) = k"
        by (auto simp: unit_size_def split: option.splits)
      from nonempty have "0 * k < length (files ?fl)" by simp
      from batched_loop_CommandFailed [OF mb k this, of E name cmd st st'] loop
      obtain n where
        p: "progress name
              (map (\<lambda>i. (cmd, TextArrayArg (take k (drop (i * k) ?d)))) [0..<Suc n])
              (take (n * k) ?d) st st'"
        by auto
      from p nth have "n = i" by (simp add: progress_def)
      with p u show ?thesis
        by (intro exI [of _ "map (\<lambda>i. (cmd, TextArrayArg (take k (drop (i * k) ?d)))) [0..<Suc i]"])
           simp
    next
      case False
      then have mb: "maxBatchSize ?fl \<le> 0" by simp
      from loop have "ExecuteBatchedFileListPipeline E name cmd ?fl 0 st
                        = (Raised CommandFailed, st')"
        by (simp only: batched_loop_unbounded [OF mb])
      from ExecuteBatchedFileListPipeline_CommandFailed [OF _ this]
      have p: "progress name [(cmd, TextArrayArg (batch_at ?m ?d 0))] [] st st'" by simp
      with nth have "i = 0" by (simp add: progress_def)
      with p show ?thesis
        by (intro exI [of _ "[(cmd, TextArrayArg (batch_at ?m ?d 0))]"]) simp
    qed
  qed
  then have log: "processed_files st' = processed_files st @ map (Pair name) (take ?t ?d)"
    by (auto simp: progress_def)
  let ?st = "st\<lparr>notices := notices st', invocations := invocations st'\<rparr>"
  from fail have t: "in_transaction (ExecuteFileListPipeline E name cmd) st
      = (Raised CommandFailed, ?st)"
    by (rule in_transaction_Raised [of "ExecuteFileListPipeline E name cmd" st])
  from row have row': "file_list_pipelines ?st name = Some row" by simp
  have d: "delta E name row ?st = ?d" by (simp add: delta_def)
  from GetUnprocessedFilesForPipeline_eq [OF row', of E] d
  have g: "GetUnprocessedFilesForPipeline E name ?st = (Returned ?fl, ?st)" by simp
  show ?thesis unfolding t snd_conv using log g by simp
qed

theorem failure_aborts_all_units_witness:
  "file_list_pipelines csv_store ''files'' = Some csv_row
   \<and> fst (ExecuteFileListPipeline csv_env ''files'' ''load_strict'' csv_store)
       = Raised CommandFailed
   \<and> length (invocations (snd (ExecuteFileListPipeline csv_env ''files'' ''load_strict''
         csv_store))) = length (invocations csv_store) + Suc 1
   \<and> processed_files (snd (ExecuteFileListPipeline csv_env ''files'' ''load_strict'' csv_store))
       = [(''files'', ''a.csv''), (''files'', ''b.csv'')]
   \<and> processed_files
         (snd (in_transaction (ExecuteFileListPipeline csv_env ''files'' ''load_strict'')
            csv_store)) = []
   \<and> fst (GetUnprocessedFilesForPipeline csv_env ''files''
         (snd (in_transaction (ExecuteFileListPipeline csv_env ''files'' ''load_strict'')
            csv_store)))
       = Returned \<lparr>files = [''a.csv'', ''b.csv'', ''c.csv''], batched = True, maxBatchSize = 2\<rparr>
   \<and> fst (ExecuteFileListPipeline csv_env ''files'' ''load_strict''
         (csv_store\<lparr>file_list_pipelines := [''files'' \<mapsto> csv_row\<lparr>fl_batched := False\<rparr>]\<rparr>))
       = Raised CommandFailed
   \<and> length (invocations (snd (ExecuteFileListPipeline csv_env ''files'' ''load_strict''
         (csv_store\<lparr>file_list_pipelines := [''files'' \<mapsto> csv_row\<lparr>fl_batched := False\<rparr>]\<rparr>))))
       = length (invocations csv_store) + Suc 2
   \<and> processed_files (snd (ExecuteFileListPipeline csv_env ''files'' ''load_strict''
         (csv_store\<lparr>file_list_pipelines := [''files'' \<mapsto> csv_row\<lparr>fl_batched := False\<rparr>]\<rparr>)))
       = [(''files'', ''a.csv''), (''files'', ''b.csv'')]
   \<and> fst (GetUnprocessedFilesForPipeline csv_env ''files''
         (snd (in_transaction (ExecuteFileListPipeline csv_env ''files'' ''load_strict'')
            (csv_store\<lparr>file_list_pipelines := [''files'' \<mapsto> csv_row\<lparr>fl_batched := False\<rparr>]\<rparr>))))
       = Returned \<lparr>files = [''a.csv'', ''b.csv'', ''c.csv''], batched = False, maxBatchSize = 2\<rparr>
   \<and> fst (ExecuteFileListPipeline csv_env ''files'' ''load_strict''
         (csv_store\<lparr>file_list_pipelines := [''files'' \<mapsto> csv_row\<lparr>fl_max_batch_size := None\<rparr>]\<rparr>))
       = Raised CommandFailed
   \<and> processed_files (snd (ExecuteFileListPipeline csv_env ''files'' ''load_strict''
         (csv_store\<lparr>file_list_pipelines := [''files'' \<mapsto> csv_row\<lparr>fl_max_batch_size := None\<rparr>]\<rparr>)))
       = []
   \<and> fst (GetUnprocessedFilesForPipeline csv_env ''files''
         (snd (in_transaction (ExecuteFileListPipeline csv_env ''files'' ''load_strict'')
            (csv_store\<lparr>file_list_pipelines := [''files'' \<mapsto> csv_row\<lparr>fl_max_batch_size := None\<rparr>]\<rparr>))))
       = Returned \<lparr>files = [''a.csv'', ''b.csv'', ''c.csv''], batched = True, maxBatchSize = - 1\<rparr>"
proof -
  let ?exec = "ExecuteFileListPipeline csv_env ''files'' ''load_strict''"
  let ?rowN = "csv_row\<lparr>fl_batched := False\<rparr>"
  let ?stN = "csv_store\<lparr>file_list_pipelines := [''files'' \<mapsto> ?rowN]\<rparr>"
  let ?rowU = "csv_row\<lparr>fl_max_batch_size := None\<rparr>"
  let ?stU = "csv_store\<lparr>file_list_pipelines := [''files'' \<mapsto> ?rowU]\<rparr>"
  have inv: "invocations csv_store = []" "invocations ?stN = []" "invocations ?stU = []"
    and lg: "processed_files csv_store = []" "processed_files ?stN = []"
      "processed_files ?stU = []"
    by (simp_all add: csv_store_def)
  have dN: "delta csv_env ''files'' ?rowN ?stN = [''a.csv'', ''b.csv'', ''c.csv'']"
    and dU: "delta csv_env ''files'' ?rowU ?stU = [''a.csv'', ''b.csv'', ''c.csv'']"
    by (simp_all add: delta_def csv_env_def csv_row_def csv_store_def)
  have row: "file_list_pipelines csv_store ''files'' = Some csv_row"
    by (simp add: csv_store_def)
  have fail: "?exec csv_store = (Raised CommandFailed, snd (?exec csv_store))"
    using csv_run_load_strict by (simp add: prod_eq_iff)
  have nth: "length (invocations (snd (?exec csv_store)))
      = length (invocations csv_store) + Suc 1"
    using csv_run_load_strict by (simp add: inv)
  from failure_aborts_all_units [OF row fail nth]
  have "processed_files (snd (in_transaction ?exec csv_store)) = processed_files csv_store"
    and "GetUnprocessedFilesForPipeline csv_env ''files'' (snd (in_transaction ?exec csv_store))
          = (Returned \<lparr>files = delta csv_env ''files'' csv_row csv_store,
              batched = fl_batched csv_row,
              maxBatchSize = (case fl_max_batch_size csv_row of None \<Rightarrow> - 1 | Some v \<Rightarrow> v)\<rparr>,
             snd (in_transaction ?exec csv_store))"
    by blast+
  then have 1: "processed_files (snd (in_transaction ?exec csv_store)) = []
      \<and> fst (GetUnprocessedFilesForPipeline csv_env ''files''
            (snd (in_transaction ?exec csv_store)))
          = Returned \<lparr>files = [''a.csv'', ''b.csv'', ''c.csv''], batched = fl_batched csv_row,
              maxBatchSize = (case fl_max_batch_size csv_row of None \<Rightarrow> - 1 | Some v \<Rightarrow> v)\<rparr>"
    by (simp add: csv_delta lg)
  have rowN: "file_list_pipelines ?stN ''files'' = Some ?rowN" by simp
  have failN: "?exec ?stN = (Raised CommandFailed, snd (?exec ?stN))"
    using csv_run_load_strict_items by (simp add: prod_eq_iff)
  have nthN: "length (invocations (snd (?exec ?stN))) = length (invocations ?stN) + Suc 2"
    using csv_run_load_strict_items by (simp add: inv)
  from failure_aborts_all_units [OF rowN failN nthN]
  have "GetUnprocessedFilesForPipeline csv_env ''files'' (snd (in_transaction ?exec ?stN))
          = (Returned \<lparr>files = delta csv_env ''files'' ?rowN ?stN,
              batched = fl_batched ?rowN,
              maxBatchSize = (case fl_max_batch_size ?rowN of None \<Rightarrow> - 1 | Some v \<Rightarrow> v)\<rparr>,
             snd (in_transaction ?exec ?stN))"
    by blast
  then have 2: "fst (GetUnprocessedFilesForPipeline csv_env ''files''
            (snd (in_transaction ?exec ?stN)))
          = Returned \<lparr>files = [''a.csv'', ''b.csv'', ''c.csv''], batched = fl_batched ?rowN,
              maxBatchSize = (case fl_max_batch_size ?rowN of None \<Rightarrow> - 1 | Some v \<Rightarrow> v)\<rparr>"
    by (simp add: dN)
  have rowU: "file_list_pipelines ?stU ''files'' = Some ?rowU" by simp
  have failU: "?exec ?stU = (Raised CommandFailed, snd (?exec ?stU))"
    using csv_run_load_strict_unbounded by (simp add: prod_eq_iff)
  have nthU: "length (invocations (snd (?exec ?stU))) = length (invocations ?stU) + Suc 0"
    using csv_run_load_strict_unbounded by (simp add: inv)
  from failure_aborts_all_units [OF rowU failU nthU]
  have "GetUnprocessedFilesForPipeline csv_env ''files'' (snd (in_transaction ?exec ?stU))
          = (Returned \<lparr>files = delta csv_env ''files'' ?rowU ?stU,
              batched = fl_batched ?rowU,
              maxBatchSize = (case fl_max_batch_size ?rowU of None \<Rightarrow> - 1 | Some v \<Rightarrow> v)\<rparr>,
             snd (in_transaction ?exec ?stU))"
    by blast
  then have 3: "fst (GetUnprocessedFilesForPipeline csv_env ''files''
            (snd (in_transaction ?exec ?stU)))
          = Returned \<lparr>files = [''a.csv'', ''b.csv'', ''c.csv''], batched = fl_batched ?rowU,
              maxBatchSize = (case fl_max_batch_size ?rowU of None \<Rightarrow> - 1 | Some v \<Rightarrow> v)\<rparr>"
    by (simp add: dU)
  from 1 2 3 have "processed_files (snd (in_transaction ?exec csv_store)) = []
      \<and> fst (GetUnprocessedFilesForPipeline csv_env ''files''
            (snd (in_transaction ?exec csv_store)))
          = Returned \<lparr>files = [''a.csv'', ''b.csv'', ''c.csv''], batched = True, maxBatchSize = 2\<rparr>
      \<and> fst (GetUnprocessedFilesForPipeline csv_env ''files''
            (snd (in_transaction ?exec ?stN)))
          = Returned \<lparr>files = [''a.csv'', ''b.csv'', ''c.csv''], batched = False, maxBatchSize = 2\<rparr>
      \<and> fst (GetUnprocessedFilesForPipeline csv_env ''files''
            (snd (in_transaction ?exec ?stU)))
          = Returned \<lparr>files = [''a.csv'', ''b.csv'', ''c.csv''], batched = True, maxBatchSize = - 1\<rparr>"
    by (simp add: csv_row_def)
  then show ?thesis
    using row nth nthN csv_run_load_strict csv_run_load_strict_items
      csv_run_load_strict_unbounded
    by (simp add: inv)
qed

subsection \<open>An empty delta\<close>

text \<open>
  C9. When the delta that \<^verbatim>\<open>GetUnprocessedFilesForPipeline\<close> computes is empty,
  \<^verbatim>\<open>ExecuteFileListPipeline\<close> returns normally, and all it does to the store is report the
  notice "no files to process": no user command is invoked and no row is written to the
  log.
\<close>

theorem ExecuteFileListPipeline_no_files:
  assumes "GetUnprocessedFilesForPipeline E name st = (Returned fileList, st1)"
    and "files fileList = []"
  shows "ExecuteFileListPipeline E name cmd st =
           (Returned (), st\<lparr>notices := notices st @ [NoFilesToProcess name]\<rparr>)"
proof -
  from GetUnprocessedFilesForPipeline_Returned [OF assms(1)] have "st1 = st" by blast
  with assms show ?thesis
    by (simp add: ExecuteFileListPipeline_def ereport_notice_def)
qed

theorem ExecuteFileListPipeline_no_files_witness:
  "GetUnprocessedFilesForPipeline csv_env ''files''
      (csv_store\<lparr>processed_files :=
         [(''files'', ''a.csv''), (''files'', ''b.csv''), (''files'', ''c.csv'')]\<rparr>)
    = (Returned \<lparr>files = [], batched = True, maxBatchSize = 2\<rparr>,
       csv_store\<lparr>processed_files :=
         [(''files'', ''a.csv''), (''files'', ''b.csv''), (''files'', ''c.csv'')]\<rparr>)
   \<and> ExecuteFileListPipeline csv_env ''files'' ''load''
      (csv_store\<lparr>processed_files :=
         [(''files'', ''a.csv''), (''files'', ''b.csv''), (''files'', ''c.csv'')]\<rparr>)
    = (Returned (),
       csv_store\<lparr>processed_files :=
                    [(''files'', ''a.csv''), (''files'', ''b.csv''), (''files'', ''c.csv'')],
                  notices := [NoFilesToProcess ''files'']\<rparr>)"
proof -
  let ?st = "csv_store\<lparr>processed_files :=
               [(''files'', ''a.csv''), (''files'', ''b.csv''), (''files'', ''c.csv'')]\<rparr>"
  have r: "file_list_pipelines ?st ''files'' = Some csv_row"
    by (simp add: csv_store_def)
  have d: "delta csv_env ''files'' csv_row ?st = []"
    by (simp add: delta_def csv_env_def csv_row_def csv_store_def)
  have h: "GetUnprocessedFilesForPipeline csv_env ''files'' ?st
      = (Returned \<lparr>files = [], batched = True, maxBatchSize = 2\<rparr>, ?st)"
    using GetUnprocessedFilesForPipeline_eq [OF r, of csv_env] d by (simp add: csv_row_def)
  have n: "notices ?st = []" by (simp add: csv_store_def)
  show ?thesis
    using h ExecuteFileListPipeline_no_files [OF h, of "''load''"] n by simp
qed

subsection \<open>Ownership\<close>

text \<open>
  C8. For a pipeline with a descriptor, \<^verbatim>\<open>incremental_execute_pipeline\<close>,
  \<^verbatim>\<open>incremental_reset_pipeline\<close> and \<^verbatim>\<open>incremental_drop_pipeline\<close>, called by a user who is
  neither superuser nor the recorded owner, raise the permission error and leave with the
  store they were called with. For a superuser or the owner, \<^verbatim>\<open>EnsurePipelineOwner\<close> returns
  without touching the store, and the call continues with the dispatch, the reset or the
  deletion on that same store: nothing has happened before the check.
\<close>

theorem ownership_enforced:
  assumes "pipelines st name = Some row"
  shows "(\<not> rolsuper E (userId st) \<and> p_owner_id row \<noteq> userId st \<longrightarrow>
            incremental_execute_pipeline E X name st = (Raised (PermissionDenied name), st)
          \<and> incremental_reset_pipeline E name st = (Raised (PermissionDenied name), st)
          \<and> incremental_drop_pipeline E X name st = (Raised (PermissionDenied name), st))
       \<and> (rolsuper E (userId st) \<or> p_owner_id row = userId st \<longrightarrow>
            EnsurePipelineOwner E name (p_owner_id row) st = (Returned (), st)
          \<and> incremental_execute_pipeline E X name st =
              ExecutePipeline X name (p_pipeline_type row) (p_command row) st
          \<and> incremental_reset_pipeline E name st = ResetPipeline name (p_pipeline_type row) st
          \<and> incremental_drop_pipeline E X name st =
              (case DeletePipeline name st of
                 (Raised e, st1) \<Rightarrow> (Raised e, st1)
               | (Returned v, st1) \<Rightarrow> UnscheduleCronJob X (GetCronJobNameForPipeline name) st1))"
  by (simp add: incremental_execute_pipeline_def incremental_reset_pipeline_def
      incremental_drop_pipeline_def ReadPipelineDesc_eq [OF assms] EnsurePipelineOwner_def
      superuser_def GetUserId_def)

theorem ownership_enforced_witness:
  "pipelines reg_store ''events'' \<noteq> None
   \<and> \<not> rolsuper csv_env (userId reg_store)
   \<and> incremental_execute_pipeline csv_env idle_ext ''events'' reg_store
       = (Raised (PermissionDenied ''events''), reg_store)
   \<and> incremental_reset_pipeline csv_env ''events'' reg_store
       = (Raised (PermissionDenied ''events''), reg_store)
   \<and> incremental_drop_pipeline csv_env idle_ext ''events'' reg_store
       = (Raised (PermissionDenied ''events''), reg_store)
   \<and> EnsurePipelineOwner csv_env ''hourly'' 42 reg_store = (Returned (), reg_store)
   \<and> incremental_execute_pipeline csv_env idle_ext ''hourly'' reg_store = (Returned (), reg_store)
   \<and> rolsuper csv_env (userId (reg_store\<lparr>userId := 10\<rparr>))
   \<and> incremental_execute_pipeline csv_env idle_ext ''events'' (reg_store\<lparr>userId := 10\<rparr>)
       = (Returned (), reg_store\<lparr>userId := 10\<rparr>)"
proof -
  let ?ev = "\<lparr>p_pipeline_type = CHR ''s'', p_owner_id = 7,
              p_source_relation = 16384, p_command = ''rollup''\<rparr>"
  let ?ho = "\<lparr>p_pipeline_type = CHR ''t'', p_owner_id = 42,
              p_source_relation = 0, p_command = ''export''\<rparr>"
  have ev: "pipelines reg_store ''events'' = Some ?ev"
    by (simp add: reg_store_def)
  have ho: "pipelines reg_store ''hourly'' = Some ?ho"
    by (simp add: reg_store_def)
  have su: "pipelines (reg_store\<lparr>userId := 10\<rparr>) ''events'' = Some ?ev"
    by (simp add: reg_store_def)
  have u: "userId reg_store = 42" by (simp add: reg_store_def)
  have r: "\<not> rolsuper csv_env 42" "rolsuper csv_env 10" by (simp_all add: csv_env_def)
  have x: "ExecutePipeline idle_ext name CHR ''s'' cmd st = (Returned (), st)"
          "ExecutePipeline idle_ext name CHR ''t'' cmd st = (Returned (), st)" for name cmd st
    by (simp_all add: ExecutePipeline_def idle_ext_def SEQUENCE_RANGE_PIPELINE_def
        TIME_INTERVAL_PIPELINE_def)
  show ?thesis
    using ownership_enforced [OF ev, of csv_env idle_ext]
      ownership_enforced [OF ho, of csv_env idle_ext]
      ownership_enforced [OF su, of csv_env idle_ext]
      ev u r x
    by simp
qed

subsection \<open>Removing the processed files of a pipeline\<close>

text \<open>
  C5, as claimed: \<^verbatim>\<open>RemoveProcessedFileList\<close> succeeds when no row matches. It does not:
  the function tests \<^verbatim>\<open>SPI_processed <= 0\<close> after the delete and raises "pipeline cannot be
  found". Here the log is empty.
\<close>

theorem RemoveProcessedFileList_no_rows_counterexample:
  "filter (\<lambda>(pn, pp). pn = ''files'') (processed_files csv_store) = []
   \<and> fst (RemoveProcessedFileList ''files'' csv_store) = Raised (PipelineCannotBeFound ''files'')"
  by (simp add: RemoveProcessedFileList_def delete_processed_files_def csv_store_def
      GetUserIdAndSecContext_def SetUserIdAndSecContext_def)

text \<open>
  C5, amended. When no row of the log carries the pipeline's name,
  \<^verbatim>\<open>RemoveProcessedFileList\<close> raises "pipeline cannot be found" and the log is as before;
  when at least one row does, it returns, the rows of the pipeline are gone and the rest of
  the store is as before. So a second removal right after a successful one raises.
\<close>

theorem RemoveProcessedFileList_needs_rows:
  "((\<forall>path. (name, path) \<notin> set (processed_files st)) \<longrightarrow>
       fst (RemoveProcessedFileList name st) = Raised (PipelineCannotBeFound name)
     \<and> processed_files (snd (RemoveProcessedFileList name st)) = processed_files st)
   \<and> ((\<exists>path. (name, path) \<in> set (processed_files st)) \<longrightarrow>
       RemoveProcessedFileList name st =
         (Returned (),
          st\<lparr>processed_files := filter (\<lambda>(pn, pp). pn \<noteq> name) (processed_files st)\<rparr>))"
proof (cases "\<forall>path. (name, path) \<notin> set (processed_files st)")
  case True
  then show ?thesis
    using count_rows_zero [of name "processed_files st"] filter_other_rows [OF True]
    by (simp add: RemoveProcessedFileList_def delete_processed_files_def
        GetUserIdAndSecContext_def SetUserIdAndSecContext_def)
next
  case False
  then have "length (filter (\<lambda>(pn, pp). pn = name) (processed_files st)) \<noteq> 0"
    using count_rows_zero [of name "processed_files st"] by simp
  with False show ?thesis
    by (simp add: RemoveProcessedFileList_def delete_processed_files_def
        GetUserIdAndSecContext_def SetUserIdAndSecContext_def)
qed

theorem RemoveProcessedFileList_needs_rows_witness:
  "(\<forall>path. (''files'', path) \<notin> set (processed_files csv_store))
   \<and> fst (RemoveProcessedFileList ''files'' csv_store) = Raised (PipelineCannotBeFound ''files'')
   \<and> processed_files (snd (RemoveProcessedFileList ''files'' csv_store)) = []
   \<and> (\<exists>path. (''files'', path) \<in> set (processed_files
         (csv_store\<lparr>processed_files := [(''files'', ''a.csv''), (''other'', ''a.csv'')]\<rparr>)))
   \<and> RemoveProcessedFileList ''files''
         (csv_store\<lparr>processed_files := [(''files'', ''a.csv''), (''other'', ''a.csv'')]\<rparr>)
       = (Returned (), csv_store\<lparr>processed_files := [(''other'', ''a.csv'')]\<rparr>)
   \<and> fst (RemoveProcessedFileList ''files'' (csv_store\<lparr>processed_files := [(''other'', ''a.csv'')]\<rparr>))
       = Raised (PipelineCannotBeFound ''files'')"
proof -
  let ?st = "csv_store\<lparr>processed_files := [(''files'', ''a.csv''), (''other'', ''a.csv'')]\<rparr>"
  let ?st' = "csv_store\<lparr>processed_files := [(''other'', ''a.csv'')]\<rparr>"
  have a: "\<forall>path. (''files'', path) \<notin> set (processed_files csv_store)"
    by (simp add: csv_store_def)
  have b: "\<exists>path. (''files'', path) \<in> set (processed_files ?st)"
    by (simp add: csv_store_def)
  have c: "\<forall>path. (''files'', path) \<notin> set (processed_files ?st')"
    by (simp add: csv_store_def)
  have p: "processed_files csv_store = []" by (simp add: csv_store_def)
  show ?thesis
    using a b c p RemoveProcessedFileList_needs_rows [of "''files''" csv_store]
      RemoveProcessedFileList_needs_rows [of "''files''" ?st]
      RemoveProcessedFileList_needs_rows [of "''files''" ?st']
    by simp
qed

subsection \<open>The identity switch\<close>

text \<open>
  C7, as claimed: the caller's identity is restored on every exit path, also when the
  registry operation raises. It is not: \<^verbatim>\<open>ReadPipelineDesc\<close> of a name without a descriptor
  raises between the two \<^verbatim>\<open>SetUserIdAndSecContext\<close> calls, and leaves with the bootstrap
  superuser as current user.
\<close>

theorem ReadPipelineDesc_raise_keeps_superuser_counterexample:
  "fst (ReadPipelineDesc ''missing'' reg_store) = Raised (NoSuchPipeline ''missing'')
   \<and> userId reg_store = 42
   \<and> userId (snd (ReadPipelineDesc ''missing'' reg_store)) = BOOTSTRAP_SUPERUSERID
   \<and> userId (snd (ReadPipelineDesc ''missing'' reg_store)) \<noteq> userId reg_store"
  by (simp add: ReadPipelineDesc_def reg_store_def GetUserIdAndSecContext_def
      SetUserIdAndSecContext_def BOOTSTRAP_SUPERUSERID_def)

text \<open>
  C7, amended. Each of the eight functions that switch to the bootstrap superuser leaves
  with the caller's user identity and security context when it returns; when it raises, it
  leaves with the identity and context of the switch, and the restoration is left to
  whoever handles the error.
\<close>

theorem identity_restored_on_return:
  "identity_on_exit st (InitializeFileListPipelineState name pattern b listFunction m st)
   \<and> identity_on_exit st (GetUnprocessedFilesForPipeline E name st)
   \<and> identity_on_exit st (GetUnprocessedFileList E name listFunction pattern st)
   \<and> identity_on_exit st (InsertProcessedFile name path st)
   \<and> identity_on_exit st (RemoveProcessedFileList name st)
   \<and> identity_on_exit st (InsertPipeline name type sourceRelation cmd st)
   \<and> identity_on_exit st (ReadPipelineDesc name st)
   \<and> identity_on_exit st (DeletePipeline name st)"
  by (simp add: identity_InitializeFileListPipelineState identity_GetUnprocessedFilesForPipeline
      identity_GetUnprocessedFileList identity_InsertProcessedFile
      identity_RemoveProcessedFileList identity_InsertPipeline identity_ReadPipelineDesc
      identity_DeletePipeline)

theorem identity_restored_on_return_witness:
  "returned (fst (ReadPipelineDesc ''hourly'' reg_store))
   \<and> userId (snd (ReadPipelineDesc ''hourly'' reg_store)) = 42
   \<and> secContext (snd (ReadPipelineDesc ''hourly'' reg_store)) = 0
   \<and> returned (fst (InsertProcessedFile ''hourly'' ''a.csv'' reg_store))
   \<and> userId (snd (InsertProcessedFile ''hourly'' ''a.csv'' reg_store)) = 42
   \<and> secContext (snd (InsertProcessedFile ''hourly'' ''a.csv'' reg_store)) = 0
   \<and> \<not> returned (fst (RemoveProcessedFileList ''hourly'' reg_store))
   \<and> userId (snd (RemoveProcessedFileList ''hourly'' reg_store)) = BOOTSTRAP_SUPERUSERID
   \<and> secContext (snd (RemoveProcessedFileList ''hourly'' reg_store)) = SECURITY_LOCAL_USERID_CHANGE"
proof -
  have u: "userId reg_store = 42" "secContext reg_store = 0"
    by (simp_all add: reg_store_def)
  have r: "returned (fst (ReadPipelineDesc ''hourly'' reg_store))"
    by (simp add: ReadPipelineDesc_def reg_store_def GetUserIdAndSecContext_def
        SetUserIdAndSecContext_def)
  have i: "returned (fst (InsertProcessedFile ''hourly'' ''a.csv'' reg_store))"
    by (simp add: InsertProcessedFile_def insert_processed_files_def reg_store_def
        GetUserIdAndSecContext_def SetUserIdAndSecContext_def)
  have d: "\<not> returned (fst (RemoveProcessedFileList ''hourly'' reg_store))"
    by (simp add: RemoveProcessedFileList_def delete_processed_files_def reg_store_def
        GetUserIdAndSecContext_def SetUserIdAndSecContext_def)
  note t = identity_restored_on_return [of reg_store "''hourly''" "''*.csv''" True
      "''public.list_files''" 2 csv_env "''a.csv''" "CHR ''t''" 0 "''export''"]
  from t r have 1: "userId (snd (ReadPipelineDesc ''hourly'' reg_store)) = userId reg_store
      \<and> secContext (snd (ReadPipelineDesc ''hourly'' reg_store)) = secContext reg_store"
    by (cases "ReadPipelineDesc ''hourly'' reg_store";
        cases "fst (ReadPipelineDesc ''hourly'' reg_store)")
       (simp_all add: identity_on_exit_def)
  from t i have 2: "userId (snd (InsertProcessedFile ''hourly'' ''a.csv'' reg_store)) = userId reg_store
      \<and> secContext (snd (InsertProcessedFile ''hourly'' ''a.csv'' reg_store)) = secContext reg_store"
    by (cases "InsertProcessedFile ''hourly'' ''a.csv'' reg_store";
        cases "fst (InsertProcessedFile ''hourly'' ''a.csv'' reg_store)")
       (simp_all add: identity_on_exit_def)
  from t d have 3: "userId (snd (RemoveProcessedFileList ''hourly'' reg_store)) = BOOTSTRAP_SUPERUSERID
      \<and> secContext (snd (RemoveProcessedFileList ''hourly'' reg_store)) = SECURITY_LOCAL_USERID_CHANGE"
    by (cases "RemoveProcessedFileList ''hourly'' reg_store";
        cases "fst (RemoveProcessedFileList ''hourly'' reg_store)")
       (simp_all add: identity_on_exit_def)
  from r i d 1 2 3 u show ?thesis by simp
qed

subsection \<open>The recorded owner\<close>

text \<open>
  C10, as claimed: the recorded owner is the caller and never the bootstrap superuser. The
  second half fails when the caller is the bootstrap superuser.
\<close>

theorem InsertPipeline_bootstrap_owner_counterexample:
  "fst (InsertPipeline ''new'' CHR ''s'' 16384 ''rollup'' (reg_store\<lparr>userId := BOOTSTRAP_SUPERUSERID\<rparr>))
     = Returned ()
   \<and> map_option p_owner_id
       (pipelines (snd (InsertPipeline ''new'' CHR ''s'' 16384 ''rollup''
          (reg_store\<lparr>userId := BOOTSTRAP_SUPERUSERID\<rparr>))) ''new'') = Some BOOTSTRAP_SUPERUSERID"
  by (simp add: InsertPipeline_def reg_store_def GetUserIdAndSecContext_def
      SetUserIdAndSecContext_def)

text \<open>
  C10, amended. For a name that is free, \<^verbatim>\<open>InsertPipeline\<close> returns and writes one
  descriptor whose owner is the user identity the caller had before the switch; the rest
  of the store, the current identity included, is as before. The recorded owner is the
  bootstrap superuser exactly when the caller is.
\<close>

theorem InsertPipeline_owner_is_caller:
  assumes "pipelines st name = None"
  shows "InsertPipeline name type sourceRelation cmd st =
           (Returned (),
            st\<lparr>pipelines := (pipelines st)(name \<mapsto>
                 \<lparr>p_pipeline_type = type, p_owner_id = userId st,
                  p_source_relation = sourceRelation, p_command = cmd\<rparr>)\<rparr>)
         \<and> (map_option p_owner_id (pipelines (snd (InsertPipeline name type sourceRelation cmd st)) name)
               = Some BOOTSTRAP_SUPERUSERID \<longleftrightarrow> userId st = BOOTSTRAP_SUPERUSERID)"
  using assms
  by (simp add: InsertPipeline_def GetUserIdAndSecContext_def SetUserIdAndSecContext_def)

theorem InsertPipeline_owner_is_caller_witness:
  "pipelines reg_store ''new'' = None
   \<and> fst (InsertPipeline ''new'' CHR ''s'' 16384 ''rollup'' reg_store) = Returned ()
   \<and> map_option p_owner_id
       (pipelines (snd (InsertPipeline ''new'' CHR ''s'' 16384 ''rollup'' reg_store)) ''new'') = Some 42
   \<and> userId (snd (InsertPipeline ''new'' CHR ''s'' 16384 ''rollup'' reg_store)) = 42"
proof -
  have h: "pipelines reg_store ''new'' = None" by (simp add: reg_store_def)
  have u: "userId reg_store = 42" by (simp add: reg_store_def)
  show ?thesis
    using h u InsertPipeline_owner_is_caller [OF h, of "CHR ''s''" 16384 "''rollup''"]
    by simp
qed

subsection \<open>Dispatch on the pipeline type\<close>

text \<open>
  C4, as claimed: the dispatch covers three kinds, the file list kind among them. It covers
  two: \<^verbatim>\<open>pipeline.h\<close> defines the codes \<open>s\<close> and \<open>t\<close> only, and neither switch has a case
  that reaches \<^verbatim>\<open>file_list.c\<close>. Any other code, here \<open>f\<close>, takes the \<^verbatim>\<open>default\<close> branch.
\<close>

theorem ExecutePipeline_third_kind_counterexample:
  "ExecutePipeline idle_ext ''files'' CHR ''f'' ''load'' csv_store
     = (Raised (UnknownPipelineType CHR ''f''), csv_store)
   \<and> ResetPipeline ''files'' CHR ''f'' csv_store
     = (Raised (UnknownPipelineType CHR ''f''), csv_store)"
  by (simp add: ExecutePipeline_def ResetPipeline_def SEQUENCE_RANGE_PIPELINE_def
      TIME_INTERVAL_PIPELINE_def)

text \<open>
  C4, amended. \<^verbatim>\<open>ExecutePipeline\<close> and \<^verbatim>\<open>ResetPipeline\<close> dispatch over the two codes of
  \<^verbatim>\<open>pipeline.h\<close>: a sequence pipeline reaches the sequence strategy, a time-interval
  pipeline the time-interval strategy, and every other code raises "unknown pipeline type"
  with the store untouched.
\<close>

theorem ExecutePipeline_two_kinds:
  "ExecutePipeline X name SEQUENCE_RANGE_PIPELINE cmd st = ExecuteSequenceRangePipeline X name cmd st
   \<and> ExecutePipeline X name TIME_INTERVAL_PIPELINE cmd st = ExecuteTimeIntervalPipeline X name cmd st
   \<and> ResetPipeline name SEQUENCE_RANGE_PIPELINE st = UpdateLastProcessedSequenceNumber name 0 st
   \<and> ResetPipeline name TIME_INTERVAL_PIPELINE st = UpdateLastProcessedTimeInterval name 0 st
   \<and> (type \<noteq> SEQUENCE_RANGE_PIPELINE \<and> type \<noteq> TIME_INTERVAL_PIPELINE \<longrightarrow>
        ExecutePipeline X name type cmd st = (Raised (UnknownPipelineType type), st)
      \<and> ResetPipeline name type st = (Raised (UnknownPipelineType type), st))"
  by (simp add: ExecutePipeline_def ResetPipeline_def SEQUENCE_RANGE_PIPELINE_def
      TIME_INTERVAL_PIPELINE_def)

theorem ExecutePipeline_two_kinds_witness:
  "CHR ''f'' \<noteq> SEQUENCE_RANGE_PIPELINE \<and> CHR ''f'' \<noteq> TIME_INTERVAL_PIPELINE
   \<and> ExecutePipeline idle_ext ''events'' CHR ''s'' ''rollup'' reg_store = (Returned (), reg_store)
   \<and> ExecutePipeline idle_ext ''hourly'' CHR ''t'' ''export'' reg_store = (Returned (), reg_store)
   \<and> ExecutePipeline idle_ext ''files'' CHR ''f'' ''load'' reg_store
       = (Raised (UnknownPipelineType CHR ''f''), reg_store)
   \<and> ResetPipeline ''files'' CHR ''f'' reg_store
       = (Raised (UnknownPipelineType CHR ''f''), reg_store)"
proof -
  have k: "CHR ''f'' \<noteq> SEQUENCE_RANGE_PIPELINE \<and> CHR ''f'' \<noteq> TIME_INTERVAL_PIPELINE"
          "SEQUENCE_RANGE_PIPELINE = CHR ''s''" "TIME_INTERVAL_PIPELINE = CHR ''t''"
    by (simp_all add: SEQUENCE_RANGE_PIPELINE_def TIME_INTERVAL_PIPELINE_def)
  show ?thesis
    using k ExecutePipeline_two_kinds [of idle_ext "''events''" "''rollup''" reg_store "CHR ''f''"]
      ExecutePipeline_two_kinds [of idle_ext "''hourly''" "''export''" reg_store "CHR ''f''"]
      ExecutePipeline_two_kinds [of idle_ext "''files''" "''load''" reg_store "CHR ''f''"]
    by (simp add: idle_ext_def)
qed

subsection \<open>Reset of a time-interval pipeline\<close>

text \<open>
  C6. The claim: a reset puts the last-processed boundary of a time-interval pipeline back
  to the configured start time, and keeps the descriptor. \<^verbatim>\<open>ResetPipeline\<close> passes the
  constant 0 to \<^verbatim>\<open>UpdateLastProcessedTimeInterval\<close>. Here role 42 creates the pipeline
  \<open>daily\<close> with start time 86400 (the two calls of
  \<^verbatim>\<open>incremental_create_time_interval_pipeline\<close>) and resets it: the boundary, 86400 after
  the creation, is 0 after the reset. The descriptor table is as before.
\<close>

theorem reset_time_interval_to_zero:
  "(let st1 = snd (InsertPipeline ''daily'' TIME_INTERVAL_PIPELINE 0 ''export'' reg_store);
        st2 = snd (InitializeTimeRangePipelineState ''daily'' False 86400 3600 30 st1);
        st3 = snd (incremental_reset_pipeline csv_env ''daily'' st2)
    in map_option ti_last_processed_time (time_interval_pipelines st2 ''daily'') = Some 86400
       \<and> fst (incremental_reset_pipeline csv_env ''daily'' st2) = Returned ()
       \<and> map_option ti_last_processed_time (time_interval_pipelines st3 ''daily'') = Some 0
       \<and> pipelines st3 = pipelines st2
       \<and> map_option p_owner_id (pipelines st3 ''daily'') = Some 42)"
proof -
  let ?row = "\<lparr>p_pipeline_type = TIME_INTERVAL_PIPELINE, p_owner_id = 42,
               p_source_relation = 0, p_command = ''export''\<rparr>"
  let ?st1 = "reg_store\<lparr>pipelines := (pipelines reg_store)(''daily'' \<mapsto> ?row)\<rparr>"
  let ?st2 = "?st1\<lparr>time_interval_pipelines := (time_interval_pipelines ?st1)(''daily'' \<mapsto>
      \<lparr>ti_batched = False, ti_last_processed_time = 86400,
       ti_time_interval = 3600, ti_min_delay = 30\<rparr>)\<rparr>"
  have 1: "InsertPipeline ''daily'' TIME_INTERVAL_PIPELINE 0 ''export'' reg_store
             = (Returned (), ?st1)"
    by (simp add: InsertPipeline_def GetUserIdAndSecContext_def SetUserIdAndSecContext_def
        reg_store_def)
  have 2: "InitializeTimeRangePipelineState ''daily'' False 86400 3600 30 ?st1
             = (Returned (), ?st2)"
    by (simp add: InitializeTimeRangePipelineState_def reg_store_def)
  have r: "pipelines ?st2 ''daily'' = Some ?row" by simp
  have u: "userId reg_store = 42" by (simp add: reg_store_def)
  have 3: "incremental_reset_pipeline csv_env ''daily'' ?st2
             = (Returned (), ?st2\<lparr>time_interval_pipelines := (time_interval_pipelines ?st2)
                  (''daily'' \<mapsto> \<lparr>ti_batched = False, ti_last_processed_time = 0,
                                  ti_time_interval = 3600, ti_min_delay = 30\<rparr>)\<rparr>)"
    unfolding incremental_reset_pipeline_def ReadPipelineDesc_eq [OF r]
    by (simp add: EnsurePipelineOwner_def superuser_def GetUserId_def u ResetPipeline_def
        UpdateLastProcessedTimeInterval_def SEQUENCE_RANGE_PIPELINE_def
        TIME_INTERVAL_PIPELINE_def)
  show ?thesis
    unfolding Let_def 1 snd_conv 2 3 fst_conv by simp
qed

end
